theory Spec2Isabelle
  imports
    Main
    "HOL-Library.Char_ord"
    "HOL-Library.List_Lexorder"
    "HOL-Library.Product_Lexorder"
begin

section \<open>Text primitives\<close>

text \<open>
  Message text is modelled as a list of 8-bit characters read as ASCII code points.
  The character classes below are the ASCII part of what Python's \<open>str.strip\<close>,
  \<open>str.lower\<close>, \<open>int\<close> and the \<open>re\<close> module use: white space is
  TAB, LF, VT, FF, CR, FS, GS, RS, US and SPACE; decimal digits are \<open>0\<close> to \<open>9\<close>;
  word characters are letters, digits and the underscore.
\<close>

definition is_space :: "char \<Rightarrow> bool" where
  "is_space c = (let n = (of_char c :: nat) in (9 \<le> n \<and> n \<le> 13) \<or> (28 \<le> n \<and> n \<le> 32))"

definition is_digit :: "char \<Rightarrow> bool" where
  "is_digit c = (let n = (of_char c :: nat) in 48 \<le> n \<and> n \<le> 57)"

definition upper_letters :: string where
  "upper_letters = ''ABCDEFGHIJKLMNOPQRSTUVWXYZ''"

definition lower_letters :: string where
  "lower_letters = ''abcdefghijklmnopqrstuvwxyz''"

definition is_upper :: "char \<Rightarrow> bool" where
  "is_upper c = (c \<in> set upper_letters)"

definition is_lower :: "char \<Rightarrow> bool" where
  "is_lower c = (c \<in> set lower_letters)"

definition is_word :: "char \<Rightarrow> bool" where
  "is_word c = (is_digit c \<or> is_upper c \<or> is_lower c \<or> c = CHR ''_'')"

definition lower_char :: "char \<Rightarrow> char" where
  "lower_char c = (case map_of (zip upper_letters lower_letters) c of Some l \<Rightarrow> l | None \<Rightarrow> c)"

definition lower :: "string \<Rightarrow> string" where
  "lower s = map lower_char s"

definition lstrip :: "string \<Rightarrow> string" where
  "lstrip s = dropWhile is_space s"

definition rstrip :: "string \<Rightarrow> string" where
  "rstrip s = rev (dropWhile is_space (rev s))"

definition strip :: "string \<Rightarrow> string" where
  "strip s = rstrip (lstrip s)"

text \<open>\<open>s.split(sep)\<close> for a one-character separator: always at least one part.\<close>

fun split_on :: "char \<Rightarrow> string \<Rightarrow> string list" where
  "split_on sep [] = [[]]"
| "split_on sep (c # cs) =
     (if c = sep then [] # split_on sep cs
      else (case split_on sep cs of [] \<Rightarrow> [[c]] | p # ps \<Rightarrow> (c # p) # ps))"

text \<open>
  \<open>int(s)\<close> on a string: surrounding white space is dropped, one sign is allowed, and
  the rest is decimal digits with single underscores allowed between digits. \<open>None\<close>
  stands for the \<open>ValueError\<close>.
\<close>

definition digit_val :: "char \<Rightarrow> nat" where
  "digit_val c = (of_char c :: nat) - 48"

fun int_literal :: "string \<Rightarrow> bool" where
  "int_literal [] = False"
| "int_literal [c] = is_digit c"
| "int_literal (c # d # cs) =
     (is_digit c \<and> (if d = CHR ''_'' then int_literal cs else int_literal (d # cs)))"

definition digits_val :: "string \<Rightarrow> nat" where
  "digits_val s = foldl (\<lambda>acc c. 10 * acc + digit_val c) 0 s"

definition py_int :: "string \<Rightarrow> int option" where
  "py_int s =
     (let t = strip s;
          neg = (t \<noteq> [] \<and> hd t = CHR ''-'');
          body = (if t \<noteq> [] \<and> (hd t = CHR ''-'' \<or> hd t = CHR ''+'') then tl t else t)
      in if int_literal body
         then Some ((if neg then - 1 else 1) * int (digits_val (filter (\<lambda>c. c \<noteq> CHR ''_'') body)))
         else None)"

definition digit_char :: "nat \<Rightarrow> char" where
  "digit_char n = ''0123456789'' ! (n mod 10)"

text \<open>\<open>f"{n:02d}"\<close> and \<open>str.zfill(2)\<close>, and the four-digit year of \<open>%Y\<close>.\<close>

definition pad2 :: "nat \<Rightarrow> string" where
  "pad2 n = (if n < 100 then [digit_char (n div 10), digit_char (n mod 10)]
             else [digit_char (n div 100 mod 10), digit_char (n div 10 mod 10), digit_char (n mod 10)])"

definition pad4 :: "nat \<Rightarrow> string" where
  "pad4 n = [digit_char (n div 1000 mod 10), digit_char (n div 100 mod 10),
             digit_char (n div 10 mod 10), digit_char (n mod 10)]"

definition zfill2 :: "string \<Rightarrow> string" where
  "zfill2 s = (if length s < 2 then replicate (2 - length s) CHR ''0'' @ s else s)"

section \<open>Calendar and clock values\<close>

text \<open>
  A \<open>datetime\<close> value. The constructor check is the one of Python's \<open>datetime(...)\<close>:
  year 1 to 9999, a month 1 to 12, a day that exists in that month, hour below 24,
  minute below 60. \<open>None\<close> stands for the \<open>ValueError\<close>.
\<close>

record datetime =
  dt_year :: nat
  dt_month :: nat
  dt_day :: nat
  dt_hour :: nat
  dt_minute :: nat
  dt_second :: nat
  dt_microsecond :: nat

definition is_leap :: "nat \<Rightarrow> bool" where
  "is_leap y = (y mod 4 = 0 \<and> (y mod 100 \<noteq> 0 \<or> y mod 400 = 0))"

definition days_in_month :: "nat \<Rightarrow> nat \<Rightarrow> nat" where
  "days_in_month y m =
     (if m = 2 then (if is_leap y then 29 else 28)
      else if m = 4 \<or> m = 6 \<or> m = 9 \<or> m = 11 then 30 else 31)"

definition valid_date :: "nat \<Rightarrow> nat \<Rightarrow> nat \<Rightarrow> bool" where
  "valid_date y m d = (1 \<le> y \<and> y \<le> 9999 \<and> 1 \<le> m \<and> m \<le> 12 \<and> 1 \<le> d \<and> d \<le> days_in_month y m)"

definition valid_datetime :: "datetime \<Rightarrow> bool" where
  "valid_datetime t =
     (valid_date (dt_year t) (dt_month t) (dt_day t) \<and> dt_hour t < 24 \<and> dt_minute t < 60
      \<and> dt_second t < 60 \<and> dt_microsecond t < 1000000)"

definition mk_datetime :: "int \<Rightarrow> int \<Rightarrow> int \<Rightarrow> int \<Rightarrow> int \<Rightarrow> datetime option" where
  "mk_datetime year month day hour minute =
     (if 0 \<le> year \<and> 0 \<le> month \<and> 0 \<le> day \<and> 0 \<le> hour \<and> 0 \<le> minute
         \<and> valid_date (nat year) (nat month) (nat day) \<and> hour < 24 \<and> minute < 60
      then Some \<lparr>dt_year = nat year, dt_month = nat month, dt_day = nat day,
                 dt_hour = nat hour, dt_minute = nat minute, dt_second = 0, dt_microsecond = 0\<rparr>
      else None)"

text \<open>
  Adding a \<open>timedelta\<close>. \<open>None\<close> stands for the \<open>OverflowError\<close> raised when the
  result would be after year 9999.
\<close>

definition add_day :: "datetime \<Rightarrow> datetime option" where
  "add_day t =
     (if dt_day t < days_in_month (dt_year t) (dt_month t) then Some (t\<lparr>dt_day := dt_day t + 1\<rparr>)
      else if dt_month t < 12 then Some (t\<lparr>dt_month := dt_month t + 1, dt_day := 1\<rparr>)
      else if dt_year t < 9999 then Some (t\<lparr>dt_year := dt_year t + 1, dt_month := 1, dt_day := 1\<rparr>)
      else None)"

definition add_hour :: "datetime \<Rightarrow> datetime option" where
  "add_hour t =
     (if dt_hour t + 1 < 24 then Some (t\<lparr>dt_hour := dt_hour t + 1\<rparr>)
      else add_day (t\<lparr>dt_hour := 0\<rparr>))"

definition add_30_minutes :: "datetime \<Rightarrow> datetime option" where
  "add_30_minutes t =
     (if dt_minute t + 30 < 60 then Some (t\<lparr>dt_minute := dt_minute t + 30\<rparr>)
      else add_hour (t\<lparr>dt_minute := dt_minute t + 30 - 60\<rparr>))"

definition date_tuple :: "datetime \<Rightarrow> nat \<times> nat \<times> nat" where
  "date_tuple t = (dt_year t, dt_month t, dt_day t)"

definition instant_tuple :: "datetime \<Rightarrow> nat \<times> nat \<times> nat \<times> nat \<times> nat \<times> nat \<times> nat" where
  "instant_tuple t =
     (dt_year t, dt_month t, dt_day t, dt_hour t, dt_minute t, dt_second t, dt_microsecond t)"

text \<open>\<open>strftime('%d-%m-%Y')\<close> and \<open>strftime('%H:%M')\<close>.\<close>

definition strftime_date :: "datetime \<Rightarrow> string" where
  "strftime_date t = pad2 (dt_day t) @ ''-'' @ pad2 (dt_month t) @ ''-'' @ pad4 (dt_year t)"

definition strftime_time :: "datetime \<Rightarrow> string" where
  "strftime_time t = pad2 (dt_hour t) @ '':'' @ pad2 (dt_minute t)"

section \<open>\<open>date_utils.get_next_time_slot\<close>\<close>

text \<open>
  The body of the \<open>try\<close> block; \<open>None\<close> is any exception, which the bare
  \<open>except\<close> turns into returning the arguments unchanged.
\<close>

definition parse_date_time :: "string \<Rightarrow> string \<Rightarrow> datetime option" where
  "parse_date_time date_str time_str =
     (case map py_int (split_on CHR ''-'' date_str) of
        [Some day, Some month, Some year] \<Rightarrow>
          (case map py_int (split_on CHR '':'' time_str) of
             [Some hour, Some minute] \<Rightarrow> mk_datetime year month day hour minute
           | _ \<Rightarrow> None)
      | _ \<Rightarrow> None)"

definition next_time_slot_try :: "string \<Rightarrow> string \<Rightarrow> (string \<times> string) option" where
  "next_time_slot_try date_str time_str =
     (case parse_date_time date_str time_str of
        None \<Rightarrow> None
      | Some current_time \<Rightarrow>
          (case add_30_minutes current_time of
             None \<Rightarrow> None
           | Some next_time \<Rightarrow>
               (if dt_hour next_time \<ge> 17
                then (case add_day next_time of
                        None \<Rightarrow> None
                      | Some next_day \<Rightarrow>
                          (let next_time' = next_day\<lparr>dt_hour := 9, dt_minute := 0\<rparr>
                           in Some (strftime_date next_time', strftime_time next_time')))
                else Some (strftime_date next_time, strftime_time next_time))))"

definition get_next_time_slot :: "string \<Rightarrow> string \<Rightarrow> string \<times> string" where
  "get_next_time_slot date_str time_str =
     (case next_time_slot_try date_str time_str of
        Some r \<Rightarrow> r
      | None \<Rightarrow> (date_str, time_str))"

section \<open>Regular expressions\<close>

text \<open>
  The fragment of Python's \<open>re\<close> that the program's patterns use, with the
  backtracking order of \<open>re\<close>: alternatives are tried left to right, a greedy
  repetition tries the longest run first, a lazy one the shortest, and the first
  complete match wins. Repetition is applied to single-character atoms only, which is all
  the patterns of this program need. The matcher is written with a continuation \<open>k\<close>
  for the rest of the pattern; the state is the text before the position (reversed), the
  text from the position on, and the groups captured so far.
\<close>

datatype atom = Lit char | Digit | Space | AnyChar | OneOf string | Range char char

datatype regex =
    Eps
  | Atom atom
  | Rep atom nat "nat option" bool
  | Seq regex regex
  | Alt regex regex
  | Group nat regex
  | Bol
  | Eol
  | WordB

type_synonym mstate = "string \<times> string \<times> (nat \<rightharpoonup> string)"

definition newline :: char where
  "newline = CHR 0x0A"

fun atom_ok :: "bool \<Rightarrow> atom \<Rightarrow> char \<Rightarrow> bool" where
  "atom_ok ic (Lit a) c = (if ic then lower_char c = lower_char a else c = a)"
| "atom_ok ic Digit c = is_digit c"
| "atom_ok ic Space c = is_space c"
| "atom_ok ic AnyChar c = (c \<noteq> newline)"
| "atom_ok ic (OneOf cs) c = (c \<in> set cs)"
| "atom_ok ic (Range a b) c = (a \<le> c \<and> c \<le> b)"

fun rep_match :: "bool \<Rightarrow> atom \<Rightarrow> nat \<Rightarrow> nat option \<Rightarrow> bool \<Rightarrow> string \<Rightarrow> string
    \<Rightarrow> (nat \<rightharpoonup> string) \<Rightarrow> (mstate \<Rightarrow> mstate option) \<Rightarrow> mstate option" where
  "rep_match ic a lo hi greedy pre [] g k = (if lo = 0 then k (pre, [], g) else None)"
| "rep_match ic a lo hi greedy pre (c # cs) g k =
     (if greedy
      then (case (if hi \<noteq> Some 0 \<and> atom_ok ic a c
                  then rep_match ic a (lo - 1) (map_option (\<lambda>h. h - 1) hi) greedy (c # pre) cs g k
                  else None) of
              Some r \<Rightarrow> Some r
            | None \<Rightarrow> (if lo = 0 then k (pre, c # cs, g) else None))
      else (case (if lo = 0 then k (pre, c # cs, g) else None) of
              Some r \<Rightarrow> Some r
            | None \<Rightarrow> (if hi \<noteq> Some 0 \<and> atom_ok ic a c
                       then rep_match ic a (lo - 1) (map_option (\<lambda>h. h - 1) hi) greedy (c # pre) cs g k
                       else None)))"

fun rmatch :: "bool \<Rightarrow> regex \<Rightarrow> mstate \<Rightarrow> (mstate \<Rightarrow> mstate option) \<Rightarrow> mstate option" where
  "rmatch ic Eps s k = k s"
| "rmatch ic (Atom a) (pre, rest, g) k =
     (case rest of [] \<Rightarrow> None | c # cs \<Rightarrow> if atom_ok ic a c then k (c # pre, cs, g) else None)"
| "rmatch ic (Rep a lo hi greedy) (pre, rest, g) k = rep_match ic a lo hi greedy pre rest g k"
| "rmatch ic (Seq r1 r2) s k = rmatch ic r1 s (\<lambda>s'. rmatch ic r2 s' k)"
| "rmatch ic (Alt r1 r2) s k =
     (case rmatch ic r1 s k of Some x \<Rightarrow> Some x | None \<Rightarrow> rmatch ic r2 s k)"
| "rmatch ic (Group i r) (pre, rest, g) k =
     rmatch ic r (pre, rest, g)
       (\<lambda>(pre', rest', g'). k (pre', rest', g'(i \<mapsto> take (length rest - length rest') rest)))"
| "rmatch ic Bol (pre, rest, g) k = (if pre = [] then k (pre, rest, g) else None)"
| "rmatch ic Eol (pre, rest, g) k =
     (if rest = [] \<or> rest = [newline] then k (pre, rest, g) else None)"
| "rmatch ic WordB (pre, rest, g) k =
     (if (pre \<noteq> [] \<and> is_word (hd pre)) \<noteq> (rest \<noteq> [] \<and> is_word (hd rest))
      then k (pre, rest, g) else None)"

text \<open>A match object: where the match starts and ends, and its groups.\<close>

record rmatch_obj =
  m_start :: nat
  m_end :: nat
  m_groups :: "nat \<rightharpoonup> string"

definition match_at :: "bool \<Rightarrow> regex \<Rightarrow> string \<Rightarrow> string \<Rightarrow> rmatch_obj option" where
  "match_at ic r pre rest =
     (case rmatch ic r (pre, rest, Map.empty) Some of
        None \<Rightarrow> None
      | Some (pre', rest', g) \<Rightarrow>
          Some \<lparr>m_start = length pre, m_end = length pre', m_groups = g\<rparr>)"

text \<open>\<open>re.match\<close>: at the start of the text only.\<close>

definition re_match :: "bool \<Rightarrow> regex \<Rightarrow> string \<Rightarrow> rmatch_obj option" where
  "re_match ic r s = match_at ic r [] s"

text \<open>\<open>re.search\<close>: the leftmost start position with a match.\<close>

fun search_from :: "bool \<Rightarrow> regex \<Rightarrow> string \<Rightarrow> string \<Rightarrow> rmatch_obj option" where
  "search_from ic r pre [] = match_at ic r pre []"
| "search_from ic r pre (c # cs) =
     (case match_at ic r pre (c # cs) of
        Some m \<Rightarrow> Some m
      | None \<Rightarrow> search_from ic r (c # pre) cs)"

definition re_search :: "bool \<Rightarrow> regex \<Rightarrow> string \<Rightarrow> rmatch_obj option" where
  "re_search ic r s = search_from ic r [] s"

text \<open>
  \<open>re.sub\<close> with a constant replacement: every leftmost non-overlapping match is
  replaced. \<open>skip\<close> counts the characters of the current match still to be dropped.
\<close>

fun sub_from :: "bool \<Rightarrow> regex \<Rightarrow> string \<Rightarrow> nat \<Rightarrow> string \<Rightarrow> string \<Rightarrow> string" where
  "sub_from ic r repl skip pre [] =
     (if skip = 0 then (case match_at ic r pre [] of Some m \<Rightarrow> repl | None \<Rightarrow> []) else [])"
| "sub_from ic r repl skip pre (c # cs) =
     (if skip > 0 then sub_from ic r repl (skip - 1) (c # pre) cs
      else (case match_at ic r pre (c # cs) of
              None \<Rightarrow> c # sub_from ic r repl 0 (c # pre) cs
            | Some m \<Rightarrow>
                (if m_end m = m_start m then repl @ c # sub_from ic r repl 0 (c # pre) cs
                 else repl @ sub_from ic r repl (m_end m - m_start m - 1) (c # pre) cs)))"

definition re_sub :: "bool \<Rightarrow> regex \<Rightarrow> string \<Rightarrow> string \<Rightarrow> string" where
  "re_sub ic r repl s = sub_from ic r repl 0 [] s"

text \<open>Writing patterns: a literal word, a sequence, an alternation.\<close>

definition lits :: "string \<Rightarrow> regex" where
  "lits s = foldr (\<lambda>c r. Seq (Atom (Lit c)) r) s Eps"

definition seqs :: "regex list \<Rightarrow> regex" where
  "seqs rs = foldr Seq rs Eps"

definition alts :: "regex \<Rightarrow> regex list \<Rightarrow> regex" where
  "alts r rs = foldl Alt r rs"

text \<open>\<open>\s+\<close>, \<open>\d{n}\<close>, \<open>\d{1,2}\<close>.\<close>

definition spaces1 :: regex where
  "spaces1 = Rep Space 1 None True"

definition digits :: "nat \<Rightarrow> regex" where
  "digits n = Rep Digit n (Some n) True"

text \<open>\<open>\d{2}-\d{2}-\d{4}\<close> and \<open>\d{1,2}:\d{2}\<close>, as they recur in the patterns.\<close>

definition date_token :: regex where
  "date_token = seqs [digits 2, Atom (Lit CHR ''-''), digits 2, Atom (Lit CHR ''-''), digits 4]"

definition time_token :: regex where
  "time_token = seqs [Rep Digit 1 (Some 2) True, Atom (Lit CHR '':''), digits 2]"

section \<open>Errors\<close>

datatype py_error = ValueError | OverflowError | IndexError | AttributeError

definition bind_err :: "py_error + 'a \<Rightarrow> ('a \<Rightarrow> py_error + 'b) \<Rightarrow> py_error + 'b" where
  "bind_err x f = (case x of Inl e \<Rightarrow> Inl e | Inr v \<Rightarrow> f v)"

text \<open>\<open>match.group(i)\<close>; a group that took no part is \<open>None\<close> in Python, and the string
  method called on it next raises.\<close>

definition group :: "rmatch_obj \<Rightarrow> nat \<Rightarrow> py_error + string" where
  "group m i = (case m_groups m i of None \<Rightarrow> Inl AttributeError | Some s \<Rightarrow> Inr s)"

text \<open>
  The zero-padding of the hour, written three times in the source:
  \<^verbatim>\<open>
  if len(time.split(':')[0]) == 1:
      hour, minute = time.split(':')
      time = f"{hour.zfill(2)}:{minute}"
  \<close>
  The unpacking raises \<open>ValueError\<close> unless there are exactly two parts.
\<close>

definition pad_hour :: "string \<Rightarrow> py_error + string" where
  "pad_hour time_str =
     (case split_on CHR '':'' time_str of
        [] \<Rightarrow> Inl IndexError
      | p # ps \<Rightarrow>
          (if length p = 1
           then (case p # ps of
                   [hour, minute] \<Rightarrow> Inr (zfill2 hour @ '':'' @ minute)
                 | _ \<Rightarrow> Inl ValueError)
           else Inr time_str))"

section \<open>\<open>date_utils.parse_cancel_message\<close>\<close>

definition cancel_prefix :: regex where
  "cancel_prefix = seqs [Bol, lits ''cancel'', spaces1]"

definition cancel_patterns :: "regex list" where
  "cancel_patterns =
     [seqs [Group 1 date_token, spaces1, Group 2 time_token],
      seqs [Group 1 date_token, spaces1, lits ''at'', spaces1, Group 2 time_token]]"

fun cancel_try :: "regex list \<Rightarrow> string \<Rightarrow> py_error + (string option \<times> string option)" where
  "cancel_try [] message = Inr (None, None)"
| "cancel_try (pattern # patterns) message =
     (case re_search False pattern message of
        Some m \<Rightarrow>
          bind_err (group m 1) (\<lambda>date_str.
          bind_err (group m 2) (\<lambda>time_str.
          bind_err (pad_hour time_str) (\<lambda>time_str'.
          Inr (Some date_str, Some time_str'))))
      | None \<Rightarrow> cancel_try patterns message)"

definition parse_cancel_message :: "string \<Rightarrow> py_error + (string option \<times> string option)" where
  "parse_cancel_message message =
     cancel_try cancel_patterns (re_sub False cancel_prefix [] (strip (lower message)))"

section \<open>\<open>bot_handler.extract_booking_details\<close>\<close>

definition pattern1 :: regex where
  "pattern1 =
     seqs [lits ''book'', spaces1, Group 1 (Rep AnyChar 1 None False), spaces1,
           Group 2 date_token, spaces1, Group 3 time_token]"

definition date_pattern :: regex where
  "date_pattern = Group 1 date_token"

definition time_pattern :: regex where
  "time_pattern = Group 1 time_token"

definition filler_pattern :: regex where
  "filler_pattern =
     seqs [WordB,
           Group 1 (alts (lits ''book'')
             [lits ''appointment'', lits ''for'', lits ''my name is'', lits ''i am'',
              lits (''i'' @ [CHR 0x27] @ ''m''), lits ''want to'',
              lits ''need'',
              lits ''on'', lits ''at'']),
           WordB]"

definition spaces_pattern :: regex where
  "spaces_pattern = spaces1"

definition extract_booking_details ::
    "string \<Rightarrow> py_error + (string option \<times> string option \<times> string option)" where
  "extract_booking_details message0 =
     (let message = strip message0 in
      case re_search True pattern1 message of
        Some m \<Rightarrow>
          bind_err (group m 1) (\<lambda>g1.
          bind_err (group m 2) (\<lambda>date_str.
          bind_err (group m 3) (\<lambda>time_str.
          bind_err (pad_hour time_str) (\<lambda>time_str'.
          Inr (Some (strip g1), Some date_str, Some time_str')))))
      | None \<Rightarrow>
          (case re_search False date_pattern message of
             None \<Rightarrow> Inr (None, None, None)
           | Some date_match \<Rightarrow>
               (case re_search False time_pattern message of
                  None \<Rightarrow> Inr (None, None, None)
                | Some time_match \<Rightarrow>
                    bind_err (group date_match 1) (\<lambda>date_str.
                    bind_err (group time_match 1) (\<lambda>time_str.
                    bind_err (pad_hour time_str) (\<lambda>time_str'.
                      (let message_before_date = strip (take (m_start date_match) message);
                           name_text = re_sub True filler_pattern [] message_before_date;
                           name = strip (re_sub False spaces_pattern '' '' name_text)
                       in if name \<noteq> [] \<and> length name > 1
                          then Inr (Some name, Some date_str, Some time_str')
                          else Inr (None, None, None))))))))"

section \<open>\<open>date_utils\<close>: the temporal validator\<close>

text \<open>
  The clock is a parameter: \<open>now\<close> is the value of \<open>datetime.now()\<close> while the
  request is processed. Code outside a \<open>try\<close> block keeps its exceptions as
  \<open>Inl\<close> results.
\<close>

text \<open>\<open>^(\d{2})-(\d{2})-(\d{4})$\<close>\<close>

definition date_format_pattern :: regex where
  "date_format_pattern =
     seqs [Bol, Group 1 (digits 2), Atom (Lit CHR ''-''), Group 2 (digits 2), Atom (Lit CHR ''-''),
           Group 3 (digits 4), Eol]"

text \<open>\<open>^([01]?[0-9]|2[0-3]):([0-5][0-9])$\<close>\<close>

definition time_format_pattern :: regex where
  "time_format_pattern =
     seqs [Bol,
           Group 1 (Alt (Seq (Rep (OneOf ''01'') 0 (Some 1) True) (Atom (Range CHR ''0'' CHR ''9'')))
                        (Seq (Atom (Lit CHR ''2'')) (Atom (Range CHR ''0'' CHR ''3'')))),
           Atom (Lit CHR '':''),
           Group 2 (Seq (Atom (Range CHR ''0'' CHR ''5'')) (Atom (Range CHR ''0'' CHR ''9''))),
           Eol]"

text \<open>\<open>a, b, ... = map(int, parts)\<close>: every part must convert.\<close>

definition ints_of :: "string list \<Rightarrow> py_error + int list" where
  "ints_of parts =
     (if list_all (\<lambda>p. py_int p \<noteq> None) parts then Inr (map (\<lambda>p. the (py_int p)) parts)
      else Inl ValueError)"

definition groups_list :: "rmatch_obj \<Rightarrow> nat \<Rightarrow> py_error + string list" where
  "groups_list m n =
     (if list_all (\<lambda>i. m_groups m i \<noteq> None) [1..<Suc n]
      then Inr (map (\<lambda>i. the (m_groups m i)) [1..<Suc n])
      else Inl AttributeError)"

definition is_valid_date_format :: "datetime \<Rightarrow> string \<Rightarrow> py_error + bool" where
  "is_valid_date_format now date_str =
     (case re_match False date_format_pattern date_str of
        None \<Rightarrow> Inr False
      | Some m \<Rightarrow>
          bind_err (groups_list m 3) (\<lambda>gs.
          bind_err (ints_of gs) (\<lambda>ns.
            (case ns of
               [day, month, year] \<Rightarrow>
                 (case mk_datetime year month day 0 0 of
                    None \<Rightarrow> Inr False
                  | Some date_obj \<Rightarrow>
                      (if date_tuple date_obj < date_tuple now then Inr False else Inr True))
             | _ \<Rightarrow> Inl ValueError))))"

definition is_valid_time_format :: "string \<Rightarrow> py_error + bool" where
  "is_valid_time_format time_str =
     (case re_match False time_format_pattern time_str of
        None \<Rightarrow> Inr False
      | Some m \<Rightarrow>
          bind_err (groups_list m 2) (\<lambda>gs.
          bind_err (ints_of gs) (\<lambda>ns.
            (case ns of
               [hour, minute] \<Rightarrow>
                 (if hour < 9 \<or> hour \<ge> 17 then Inr False
                  else if minute \<notin> set [0, 30] then Inr False
                  else Inr True)
             | _ \<Rightarrow> Inl ValueError))))"

definition is_valid_date_time :: "datetime \<Rightarrow> string \<Rightarrow> string \<Rightarrow> py_error + bool" where
  "is_valid_date_time now date_str time_str =
     bind_err (is_valid_date_format now date_str) (\<lambda>date_ok.
     bind_err (if date_ok then is_valid_time_format time_str else Inr False) (\<lambda>time_ok.
       if \<not> date_ok \<or> \<not> time_ok then Inr False
       else
         bind_err (ints_of (split_on CHR ''-'' date_str)) (\<lambda>ds.
         (case ds of
            [day, month, year] \<Rightarrow>
              bind_err (ints_of (split_on CHR '':'' time_str)) (\<lambda>ts.
              (case ts of
                 [hour, minute] \<Rightarrow>
                   (case mk_datetime year month day hour minute of
                      None \<Rightarrow> Inr False
                    | Some appointment_datetime \<Rightarrow>
                        (case add_hour now of
                           None \<Rightarrow> Inl OverflowError
                         | Some limit \<Rightarrow>
                             (if instant_tuple appointment_datetime \<le> instant_tuple limit
                              then Inr False else Inr True)))
               | _ \<Rightarrow> Inl ValueError))
          | _ \<Rightarrow> Inl ValueError))))"

section \<open>\<open>models.Appointment\<close> and the repository\<close>

text \<open>
  The table of appointments is a list of rows in insertion order. The \<open>status\<close> column
  holds one of the two strings \<open>'confirmed'\<close> and \<open>'cancelled'\<close>.
\<close>

datatype status = Confirmed | Cancelled

record appointment =
  apt_id :: nat
  apt_name :: string
  apt_phone_number :: string
  apt_date :: string
  apt_time :: string
  apt_status :: status
  apt_created_at :: datetime

type_synonym repo = "appointment list"

definition is_slot_available :: "repo \<Rightarrow> string \<Rightarrow> string \<Rightarrow> nat option \<Rightarrow> bool" where
  "is_slot_available db date_str time_str exclude_id =
     (let query = filter (\<lambda>a. apt_date a = date_str \<and> apt_time a = time_str
                              \<and> apt_status a = Confirmed) db;
          query' = (case exclude_id of
                      None \<Rightarrow> query
                    | Some x \<Rightarrow> if x \<noteq> 0 then filter (\<lambda>a. apt_id a \<noteq> x) query else query)
      in query' = [])"

text \<open>\<open>order_by(Appointment.date, Appointment.time)\<close> compares the two string columns.\<close>

definition get_user_appointments :: "repo \<Rightarrow> string \<Rightarrow> appointment list" where
  "get_user_appointments db phone =
     sort_key (\<lambda>a. (apt_date a, apt_time a))
       (filter (\<lambda>a. apt_phone_number a = phone \<and> apt_status a = Confirmed) db)"

definition check_time :: "nat \<Rightarrow> string" where
  "check_time hour = pad2 hour @ '':00''"

fun search_days :: "nat \<Rightarrow> repo \<Rightarrow> string \<Rightarrow> string option \<times> string option" where
  "search_days 0 db current_date = (None, None)"
| "search_days (Suc n) db current_date =
     (case find (\<lambda>hour. is_slot_available db current_date (check_time hour) None) [9..<17] of
        Some hour \<Rightarrow> (Some current_date, Some (check_time hour))
      | None \<Rightarrow> search_days n db (fst (get_next_time_slot current_date ''00:00'')))"

definition find_next_available_slot ::
    "repo \<Rightarrow> string \<Rightarrow> string \<Rightarrow> string option \<times> string option" where
  "find_next_available_slot db preferred_date preferred_time = search_days 7 db preferred_date"

section \<open>\<open>bot_handler\<close>: the three operations\<close>

text \<open>
  A reply is recorded as the message template chosen and the values put into it; the
  wording is not modelled. A handler returns its reply, or the exception that leaves it,
  and the table afterwards.
\<close>

datatype response =
    BookingHelp
  | InvalidDateTime string
  | SlotTakenAlternative string string string string string
  | SlotTakenNoAlternative string string string
  | BookingConfirmed string string string string
  | NoAppointments
  | AppointmentList "appointment list"
  | CancelHelp
  | CancelNotFound string string
  | CancelSuccess string string string
  | HelpMenu
  | DefaultReply

definition truthy :: "string option \<Rightarrow> bool" where
  "truthy x = (case x of None \<Rightarrow> False | Some s \<Rightarrow> s \<noteq> [])"

definition next_id :: "repo \<Rightarrow> nat" where
  "next_id db = Suc (fold max (map apt_id db) 0)"

definition handle_appointment_booking ::
    "datetime \<Rightarrow> datetime \<Rightarrow> string \<Rightarrow> string \<Rightarrow> repo \<Rightarrow> (py_error + response) \<times> repo" where
  "handle_appointment_booking now utcnow message phone db =
     (case extract_booking_details message of
        Inl e \<Rightarrow> (Inl e, db)
      | Inr (name, date, time) \<Rightarrow>
          (if \<not> truthy name \<or> \<not> truthy date \<or> \<not> truthy time then (Inr BookingHelp, db)
           else
             (case is_valid_date_time now (the date) (the time) of
                Inl e \<Rightarrow> (Inl e, db)
              | Inr False \<Rightarrow> (Inr (InvalidDateTime (the name)), db)
              | Inr True \<Rightarrow>
                  (if \<not> is_slot_available db (the date) (the time) None
                   then (case find_next_available_slot db (the date) (the time) of
                           (next_date, next_time) \<Rightarrow>
                             (if truthy next_date \<and> truthy next_time
                              then (Inr (SlotTakenAlternative (the name) (the date) (the time)
                                           (the next_date) (the next_time)), db)
                              else (Inr (SlotTakenNoAlternative (the name) (the date) (the time)), db)))
                   else (Inr (BookingConfirmed (the name) (the date) (the time) phone),
                         db @ [\<lparr>apt_id = next_id db, apt_name = the name,
                                 apt_phone_number = phone, apt_date = the date,
                                 apt_time = the time, apt_status = Confirmed,
                                 apt_created_at = utcnow\<rparr>])))))"

definition handle_view_appointments :: "string \<Rightarrow> repo \<Rightarrow> (py_error + response) \<times> repo" where
  "handle_view_appointments phone db =
     (let appointments = get_user_appointments db phone
      in if appointments = [] then (Inr NoAppointments, db)
         else (Inr (AppointmentList appointments), db))"

text \<open>\<open>query.first()\<close>: the index of the first row that satisfies the filter.\<close>

fun first_index :: "('a \<Rightarrow> bool) \<Rightarrow> 'a list \<Rightarrow> nat option" where
  "first_index P [] = None"
| "first_index P (x # xs) = (if P x then Some 0 else map_option Suc (first_index P xs))"

definition handle_cancel_appointment ::
    "string \<Rightarrow> string \<Rightarrow> repo \<Rightarrow> (py_error + response) \<times> repo" where
  "handle_cancel_appointment message phone db =
     (case parse_cancel_message message of
        Inl e \<Rightarrow> (Inl e, db)
      | Inr (date, time) \<Rightarrow>
          (if \<not> truthy date \<or> \<not> truthy time then (Inr CancelHelp, db)
           else
             (case first_index (\<lambda>a. apt_phone_number a = phone \<and> apt_date a = the date
                                     \<and> apt_time a = the time \<and> apt_status a = Confirmed) db of
                None \<Rightarrow> (Inr (CancelNotFound (the date) (the time)), db)
              | Some i \<Rightarrow>
                  (Inr (CancelSuccess (apt_name (db ! i)) (the date) (the time)),
                   db[i := (db ! i)\<lparr>apt_status := Cancelled\<rparr>]))))"

text \<open>The three requests of a client, with the clock values read while serving a booking.\<close>

datatype request =
    Book datetime datetime string string
  | Cancel string string
  | ListAppointments string

fun handle :: "request \<Rightarrow> repo \<Rightarrow> (py_error + response) \<times> repo" where
  "handle (Book now utcnow message phone) db = handle_appointment_booking now utcnow message phone db"
| "handle (Cancel message phone) db = handle_cancel_appointment message phone db"
| "handle (ListAppointments phone) db = handle_view_appointments phone db"

fun run :: "request list \<Rightarrow> repo \<Rightarrow> repo" where
  "run [] db = db"
| "run (rq # rqs) db = run rqs (snd (handle rq db))"
section \<open>Properties of repository states\<close>

definition slot_exclusive :: "repo \<Rightarrow> bool" where
  "slot_exclusive db =
     distinct (map (\<lambda>a. (apt_date a, apt_time a)) (filter (\<lambda>a. apt_status a = Confirmed) db))"

definition same_details :: "appointment \<Rightarrow> appointment \<Rightarrow> bool" where
  "same_details a b =
     (apt_id b = apt_id a \<and> apt_name b = apt_name a \<and> apt_phone_number b = apt_phone_number a
      \<and> apt_date b = apt_date a \<and> apt_time b = apt_time a \<and> apt_created_at b = apt_created_at a)"

definition status_step :: "appointment \<Rightarrow> appointment \<Rightarrow> bool" where
  "status_step a b =
     (apt_status b = apt_status a \<or> (apt_status a = Confirmed \<and> apt_status b = Cancelled))"

definition evolves :: "repo \<Rightarrow> repo \<Rightarrow> bool" where
  "evolves db db' =
     (length db \<le> length db'
      \<and> list_all2 (\<lambda>a b. same_details a b \<and> status_step a b) db (take (length db) db'))"

definition cancel_row :: "repo \<Rightarrow> nat \<Rightarrow> repo" where
  "cancel_row db i = db[i := (db ! i)\<lparr>apt_status := Cancelled\<rparr>]"

definition example_now :: datetime where
  "example_now = \<lparr>dt_year = 2025, dt_month = 8, dt_day = 20, dt_hour = 10, dt_minute = 0,
                    dt_second = 0, dt_microsecond = 0\<rparr>"

definition example_requests :: "request list" where
  "example_requests =
     [Book example_now example_now ''Book Jane Roe 20-08-2025 12:00'' ''+100'',
      Book example_now example_now ''Book John Doe 20-08-2025 12:00'' ''+200'',
      Cancel ''Cancel 20-08-2025 at 12:00'' ''+100'',
      Book example_now example_now ''Book John Doe 20-08-2025 12:00'' ''+200'',
      ListAppointments ''+200'']"

definition example_db :: repo where
  "example_db =
     [\<lparr>apt_id = 1, apt_name = ''Jane Roe'', apt_phone_number = ''+100'', apt_date = ''20-08-2025'',
       apt_time = ''12:00'', apt_status = Confirmed, apt_created_at = example_now\<rparr>,
      \<lparr>apt_id = 2, apt_name = ''John Doe'', apt_phone_number = ''+200'', apt_date = ''21-08-2025'',
       apt_time = ''09:30'', apt_status = Confirmed, apt_created_at = example_now\<rparr>]"

section \<open>What a pattern matches\<close>

text \<open>
  A declarative reading of the patterns, used to state what a successful match implies:
  \<open>matches_rel ic r s s'\<close> holds when \<open>r\<close> can take the matcher from state \<open>s\<close> to
  state \<open>s'\<close>.
\<close>

fun matches_rel :: "bool \<Rightarrow> regex \<Rightarrow> mstate \<Rightarrow> mstate \<Rightarrow> bool" where
  "matches_rel ic Eps s s' = (s' = s)"
| "matches_rel ic (Atom a) (pre, rest, g) s' =
     (\<exists>c cs. rest = c # cs \<and> atom_ok ic a c \<and> s' = (c # pre, cs, g))"
| "matches_rel ic (Rep a lo hi greedy) (pre, rest, g) s' =
     (\<exists>w rest'. rest = w @ rest' \<and> lo \<le> length w \<and> (\<forall>h. hi = Some h \<longrightarrow> length w \<le> h)
        \<and> list_all (atom_ok ic a) w \<and> s' = (rev w @ pre, rest', g))"
| "matches_rel ic (Seq r1 r2) s s' = (\<exists>s1. matches_rel ic r1 s s1 \<and> matches_rel ic r2 s1 s')"
| "matches_rel ic (Alt r1 r2) s s' = (matches_rel ic r1 s s' \<or> matches_rel ic r2 s s')"
| "matches_rel ic (Group i r) (pre, rest, g) s' =
     (\<exists>pre' rest' g'. matches_rel ic r (pre, rest, g) (pre', rest', g')
        \<and> s' = (pre', rest', g'(i \<mapsto> take (length rest - length rest') rest)))"
| "matches_rel ic Bol (pre, rest, g) s' = (pre = [] \<and> s' = (pre, rest, g))"
| "matches_rel ic Eol (pre, rest, g) s' = ((rest = [] \<or> rest = [newline]) \<and> s' = (pre, rest, g))"
| "matches_rel ic WordB (pre, rest, g) s' =
     (((pre \<noteq> [] \<and> is_word (hd pre)) \<noteq> (rest \<noteq> [] \<and> is_word (hd rest))) \<and> s' = (pre, rest, g))"

definition time_shape :: "string \<Rightarrow> bool" where
  "time_shape t = (\<exists>h m. t = h @ '':'' @ m \<and> (length h = 1 \<or> length h = 2) \<and> length m = 2
                      \<and> list_all is_digit h \<and> list_all is_digit m)"

definition date_shape :: "string \<Rightarrow> bool" where
  "date_shape d = (\<exists>a b c. d = a @ ''-'' @ b @ ''-'' @ c \<and> length a = 2 \<and> length b = 2 \<and> length c = 4
                      \<and> list_all is_digit a \<and> list_all is_digit b \<and> list_all is_digit c)"

definition is_date_token :: "string \<Rightarrow> bool" where
  "is_date_token d =
     (length d = 10 \<and> list_all is_digit (take 2 d) \<and> d ! 2 = CHR ''-''
      \<and> list_all is_digit (take 2 (drop 3 d)) \<and> d ! 5 = CHR ''-'' \<and> list_all is_digit (drop 6 d))"

definition is_padded_time :: "string \<Rightarrow> bool" where
  "is_padded_time t =
     (length t = 5 \<and> list_all is_digit (take 2 t) \<and> t ! 2 = CHR '':'' \<and> list_all is_digit (drop 3 t))"

definition double_booked_db :: repo where
  "double_booked_db =
     [\<lparr>apt_id = 1, apt_name = ''Jane Roe'', apt_phone_number = ''+100'', apt_date = ''20-08-2025'',
       apt_time = ''12:00'', apt_status = Confirmed, apt_created_at = example_now\<rparr>,
      \<lparr>apt_id = 2, apt_name = ''John Doe'', apt_phone_number = ''+200'', apt_date = ''20-08-2025'',
       apt_time = ''12:00'', apt_status = Confirmed, apt_created_at = example_now\<rparr>]"

definition next_calendar_day :: "nat \<times> nat \<times> nat \<Rightarrow> nat \<times> nat \<times> nat" where
  "next_calendar_day ymd =
     (case ymd of (y, m, d) \<Rightarrow>
        if d < days_in_month y m then (y, m, d + 1)
        else if m < 12 then (y, m + 1, 1)
        else (y + 1, 1, 1))"

definition date_string :: "nat \<times> nat \<times> nat \<Rightarrow> string" where
  "date_string ymd = (case ymd of (y, m, d) \<Rightarrow> pad2 d @ ''-'' @ pad2 m @ ''-'' @ pad4 y)"

definition time_string :: "nat \<Rightarrow> nat \<Rightarrow> string" where
  "time_string h mi = pad2 h @ '':'' @ pad2 mi"

definition full_day_db :: repo where
  "full_day_db =
     map (\<lambda>hour. \<lparr>apt_id = hour - 8, apt_name = ''Jane Roe'', apt_phone_number = ''+100'',
                    apt_date = ''20-08-2025'', apt_time = check_time hour, apt_status = Confirmed,
                    apt_created_at = example_now\<rparr>) [9..<17]"

definition listing_db :: repo where
  "listing_db =
     [\<lparr>apt_id = 1, apt_name = ''John Doe'', apt_phone_number = ''+200'', apt_date = ''21-08-2025'',
       apt_time = ''09:00'', apt_status = Confirmed, apt_created_at = example_now\<rparr>,
      \<lparr>apt_id = 2, apt_name = ''John Doe'', apt_phone_number = ''+200'', apt_date = ''01-09-2025'',
       apt_time = ''12:00'', apt_status = Confirmed, apt_created_at = example_now\<rparr>]"

section \<open>Soundness of the matcher\<close>

lemma rep_match_sound:
  "rep_match ic a lo hi greedy pre rest g k = Some res \<Longrightarrow>
     \<exists>w rest'. rest = w @ rest' \<and> lo \<le> length w \<and> (\<forall>h. hi = Some h \<longrightarrow> length w \<le> h)
        \<and> list_all (atom_ok ic a) w \<and> k (rev w @ pre, rest', g) = Some res"
proof (induction rest arbitrary: lo hi pre)
  case Nil
  then show ?case by (auto split: if_splits)
next
  case (Cons c cs)
  let ?stop = "lo = 0 \<and> k (pre, c # cs, g) = Some res"
  let ?more = "hi \<noteq> Some 0 \<and> atom_ok ic a c \<and>
       rep_match ic a (lo - 1) (map_option (\<lambda>h. h - 1) hi) greedy (c # pre) cs g k = Some res"
  from Cons.prems have "?stop \<or> ?more"
    by (auto split: if_splits option.splits)
  then show ?case
  proof
    assume ?stop
    then have "c # cs = [] @ (c # cs) \<and> lo \<le> length ([]::string) \<and> (\<forall>h. hi = Some h \<longrightarrow> length ([]::string) \<le> h)
        \<and> list_all (atom_ok ic a) [] \<and> k (rev [] @ pre, c # cs, g) = Some res" by simp
    then show ?thesis by blast
  next
    assume m: ?more
    from Cons.IH[OF conjunct2[OF conjunct2[OF m]]] obtain w rest' where
      w: "cs = w @ rest'" "lo - 1 \<le> length w" "\<forall>h. map_option (\<lambda>h. h - 1) hi = Some h \<longrightarrow> length w \<le> h"
         "list_all (atom_ok ic a) w" "k (rev w @ c # pre, rest', g) = Some res"
      by blast
    have "c # cs = (c # w) @ rest' \<and> lo \<le> length (c # w) \<and> (\<forall>h. hi = Some h \<longrightarrow> length (c # w) \<le> h)
        \<and> list_all (atom_ok ic a) (c # w) \<and> k (rev (c # w) @ pre, rest', g) = Some res"
      using w m by (cases hi) auto
    then show ?thesis by blast
  qed
qed

lemma rmatch_sound:
  "rmatch ic r s k = Some res \<Longrightarrow> \<exists>s'. matches_rel ic r s s' \<and> k s' = Some res"
proof (induction r arbitrary: s k)
  case Eps
  then show ?case by simp
next
  case (Atom a)
  then show ?case by (cases s) (auto split: list.splits if_splits)
next
  case (Rep a lo hi greedy)
  obtain pre rest g where s: "s = (pre, rest, g)" by (cases s)
  from Rep show ?case unfolding s
    by (auto dest!: rep_match_sound)
next
  case (Seq r1 r2)
  from Seq.prems have "rmatch ic r1 s (\<lambda>s'. rmatch ic r2 s' k) = Some res" by simp
  from Seq.IH(1)[OF this] obtain s1 where s1: "matches_rel ic r1 s s1" "rmatch ic r2 s1 k = Some res"
    by blast
  from Seq.IH(2)[OF s1(2)] obtain s2 where s2: "matches_rel ic r2 s1 s2" "k s2 = Some res"
    by blast
  have "matches_rel ic (Seq r1 r2) s s2"
    using s1(1) s2(1) matches_rel.simps(4) by blast
  with s2(2) show ?case by blast
next
  case (Alt r1 r2)
  from Alt.prems have "rmatch ic r1 s k = Some res \<or> rmatch ic r2 s k = Some res"
    by (auto split: option.splits)
  then obtain s' where "(matches_rel ic r1 s s' \<or> matches_rel ic r2 s s') \<and> k s' = Some res"
    using Alt.IH by blast
  then have "matches_rel ic (Alt r1 r2) s s' \<and> k s' = Some res" by simp
  then show ?case by blast
next
  case (Group i r)
  obtain pre rest g where s: "s = (pre, rest, g)" by (cases s)
  from Group.prems have "rmatch ic r (pre, rest, g)
       (\<lambda>(pre', rest', g'). k (pre', rest', g'(i \<mapsto> take (length rest - length rest') rest))) = Some res"
    by (simp add: s)
  from Group.IH[OF this] show ?case unfolding s by auto
next
  case Bol
  then show ?case by (cases s) (auto split: if_splits)
next
  case Eol
  then show ?case by (cases s) (auto split: if_splits)
next
  case WordB
  then show ?case by (cases s) (auto split: if_splits)
qed

lemma match_at_sound:
  "match_at ic r pre rest = Some m \<Longrightarrow>
     \<exists>pre' rest' g. matches_rel ic r (pre, rest, Map.empty) (pre', rest', g)
        \<and> m = \<lparr>m_start = length pre, m_end = length pre', m_groups = g\<rparr>"
  by (auto simp: match_at_def split: option.splits dest!: rmatch_sound)

lemma search_from_sound:
  "search_from ic r pre rest = Some m \<Longrightarrow>
     \<exists>p q pre' rest' g. rest = p @ q \<and> matches_rel ic r (rev p @ pre, q, Map.empty) (pre', rest', g)
        \<and> m = \<lparr>m_start = length pre + length p, m_end = length pre', m_groups = g\<rparr>"
proof (induction rest arbitrary: pre)
  case Nil
  then show ?case by (auto dest!: match_at_sound)
next
  case (Cons c cs)
  show ?case
  proof (cases "match_at ic r pre (c # cs)")
    case (Some m')
    with Cons.prems have "m' = m" by simp
    with match_at_sound[OF Some] obtain pre' rest' g where
      "matches_rel ic r (rev [] @ pre, c # cs, Map.empty) (pre', rest', g)"
      "m = \<lparr>m_start = length pre + length ([]::string), m_end = length pre', m_groups = g\<rparr>"
      by auto
    then show ?thesis by (metis append_Nil)
  next
    case None
    with Cons.prems have "search_from ic r (c # pre) cs = Some m" by simp
    from Cons.IH[OF this] obtain p q pre' rest' g where
      *: "cs = p @ q" "matches_rel ic r (rev p @ c # pre, q, Map.empty) (pre', rest', g)"
      "m = \<lparr>m_start = length (c # pre) + length p, m_end = length pre', m_groups = g\<rparr>"
      by blast
    then have "c # cs = (c # p) @ q \<and> matches_rel ic r (rev (c # p) @ pre, q, Map.empty) (pre', rest', g)
        \<and> m = \<lparr>m_start = length pre + length (c # p), m_end = length pre', m_groups = g\<rparr>"
      by simp
    then show ?thesis by blast
  qed
qed

lemma length_letters: "length upper_letters = length lower_letters"
  by (simp add: upper_letters_def lower_letters_def)

lemma lower_char_fix: "\<not> is_upper c \<Longrightarrow> lower_char c = c"
proof -
  assume "\<not> is_upper c"
  then have "map_of (zip upper_letters lower_letters) c = None"
    by (simp add: is_upper_def map_of_zip_is_None[OF length_letters])
  then show ?thesis by (simp add: lower_char_def)
qed

lemma lower_char_upper: "is_upper c \<Longrightarrow> is_lower (lower_char c)"
proof -
  assume "is_upper c"
  then obtain l where l: "map_of (zip upper_letters lower_letters) c = Some l"
    using map_of_zip_is_None[OF length_letters, of c] by (auto simp: is_upper_def)
  then have "l \<in> set lower_letters"
    by (meson in_set_zipE map_of_SomeD)
  with l show ?thesis by (simp add: lower_char_def is_lower_def)
qed

lemma lower_char_not_letter:
  assumes "\<not> is_upper a" "\<not> is_lower a"
  shows "lower_char c = lower_char a \<longleftrightarrow> c = a"
proof (cases "is_upper c")
  case True
  then show ?thesis using assms lower_char_upper[OF True] lower_char_fix[of a] by auto
next
  case False
  then show ?thesis using assms lower_char_fix[of a] lower_char_fix[of c] by auto
qed

lemma lit_colon [simp]:
  "(if ic then lower_char c = lower_char CHR '':'' else c = CHR '':'') \<longleftrightarrow> c = CHR '':''"
  by (simp add: lower_char_not_letter is_upper_def is_lower_def upper_letters_def lower_letters_def)

lemma lit_dash [simp]:
  "(if ic then lower_char c = lower_char CHR ''-'' else c = CHR ''-'') \<longleftrightarrow> c = CHR ''-''"
  by (simp add: lower_char_not_letter is_upper_def is_lower_def upper_letters_def lower_letters_def)

lemma time_token_rel:
  assumes "matches_rel ic time_token (pre, rest, g) (pre', rest', g')"
  shows "g' = g \<and> (\<exists>t. rest = t @ rest' \<and> pre' = rev t @ pre \<and> time_shape t)"
proof -
  from assms obtain h m where
    hm: "rest = h @ CHR '':'' # m @ rest'" "1 \<le> length h" "length h \<le> 2" "length m = 2"
        "list_all is_digit h" "list_all is_digit m" "pre' = rev m @ CHR '':'' # rev h @ pre" "g' = g"
    by (auto simp: time_token_def seqs_def digits_def list_all_iff)
  have "time_shape (h @ '':'' @ m)"
    unfolding time_shape_def using hm(2-6) by (intro exI[of _ h] exI[of _ m]) auto
  with hm show ?thesis by (intro conjI exI[of _ "h @ '':'' @ m"]) auto
qed

lemma date_token_rel:
  assumes "matches_rel ic date_token (pre, rest, g) (pre', rest', g')"
  shows "g' = g \<and> (\<exists>d. rest = d @ rest' \<and> pre' = rev d @ pre \<and> date_shape d)"
proof -
  from assms obtain a b c where
    abc: "rest = a @ CHR ''-'' # b @ CHR ''-'' # c @ rest'" "length a = 2" "length b = 2" "length c = 4"
        "list_all is_digit a" "list_all is_digit b" "list_all is_digit c"
        "pre' = rev c @ CHR ''-'' # rev b @ CHR ''-'' # rev a @ pre" "g' = g"
    by (auto simp: date_token_def seqs_def digits_def list_all_iff)
  have "date_shape (a @ ''-'' @ b @ ''-'' @ c)"
    unfolding date_shape_def using abc(2-7) by (intro exI[of _ a] exI[of _ b] exI[of _ c]) auto
  with abc show ?thesis by (intro conjI exI[of _ "a @ ''-'' @ b @ ''-'' @ c"]) auto
qed

lemma spaces1_rel:
  "matches_rel ic spaces1 (pre, rest, g) s' \<Longrightarrow>
     \<exists>w rest'. rest = w @ rest' \<and> w \<noteq> [] \<and> list_all is_space w \<and> s' = (rev w @ pre, rest', g)"
  by (auto simp: spaces1_def list_all_iff)

lemma lits_rel:
  "matches_rel ic (lits l) (pre, rest, g) s' \<Longrightarrow>
     \<exists>w rest'. rest = w @ rest' \<and> length w = length l \<and> s' = (rev w @ pre, rest', g)"
proof (induction l arbitrary: pre rest)
  case Nil
  then show ?case by (simp add: lits_def)
next
  case (Cons a l)
  from Cons.prems obtain c cs where c: "rest = c # cs" "matches_rel ic (lits l) (c # pre, cs, g) s'"
    by (auto simp: lits_def)
  from Cons.IH[OF c(2)] obtain w rest' where "cs = w @ rest'" "length w = length l" "s' = (rev w @ c # pre, rest', g)"
    by blast
  then have "rest = (c # w) @ rest' \<and> length (c # w) = length (a # l) \<and> s' = (rev (c # w) @ pre, rest', g)"
    using c(1) by simp
  then show ?case by blast
qed

lemma pattern1_rel:
  assumes "matches_rel ic pattern1 (pre, rest, Map.empty) (pre', rest', g')"
  shows "\<exists>n d t. g' 1 = Some n \<and> g' 2 = Some d \<and> g' 3 = Some t \<and> n \<noteq> [] \<and> date_shape d \<and> time_shape t"
proof -
  from assms obtain s1 s2 s3 s4 s5 s6 where
    st: "matches_rel ic (lits ''book'') (pre, rest, Map.empty) s1"
        "matches_rel ic spaces1 s1 s2"
        "matches_rel ic (Group 1 (Rep AnyChar 1 None False)) s2 s3"
        "matches_rel ic spaces1 s3 s4"
        "matches_rel ic (Group 2 date_token) s4 s5"
        "matches_rel ic spaces1 s5 s6"
        "matches_rel ic (Group 3 time_token) s6 (pre', rest', g')"
    unfolding pattern1_def seqs_def by (simp del: matches_rel.simps(6) split_paired_Ex) blast
  from lits_rel[OF st(1)] obtain p1 r1 where s1: "s1 = (p1, r1, Map.empty)" by blast
  from spaces1_rel[OF st(2)[unfolded s1]] obtain p2 r2 where s2: "s2 = (p2, r2, Map.empty)" by blast
  from st(3)[unfolded s2] obtain n r3 where n: "s3 = (rev n @ p2, r3, [1 \<mapsto> n])" "1 \<le> length n"
    by auto
  define p3 where "p3 = rev n @ p2"
  have s3: "s3 = (p3, r3, [1 \<mapsto> n])" "n \<noteq> []"
    using n by (auto simp: p3_def)
  from spaces1_rel[OF st(4)[unfolded s3]] obtain p4 r4 where s4: "s4 = (p4, r4, [1 \<mapsto> n])" by blast
  from st(5)[unfolded s4] obtain d p5 r5 where s5: "s5 = (p5, r5, [1 \<mapsto> n, 2 \<mapsto> d])" "date_shape d"
    by (auto dest!: date_token_rel)
  from spaces1_rel[OF st(6)[unfolded s5]] obtain p6 r6 where s6: "s6 = (p6, r6, [1 \<mapsto> n, 2 \<mapsto> d])" by blast
  from st(7)[unfolded s6] obtain t where "g' = [1 \<mapsto> n, 2 \<mapsto> d, 3 \<mapsto> t]" "time_shape t"
    by (auto dest!: time_token_rel)
  with s3(2) s5(2) show ?thesis by simp
qed

lemma date_shape_token: "date_shape d \<Longrightarrow> is_date_token d"
  by (auto simp: date_shape_def is_date_token_def nth_append)

lemma re_search_sound:
  "re_search ic r s = Some m \<Longrightarrow>
     \<exists>p q pre' rest' g. s = p @ q \<and> matches_rel ic r (rev p, q, Map.empty) (pre', rest', g)
        \<and> m_start m = length p \<and> m_groups m = g"
proof -
  assume "re_search ic r s = Some m"
  then have "search_from ic r [] s = Some m" by (simp add: re_search_def)
  from search_from_sound[OF this] obtain p q pre' rest' g where
    *: "s = p @ q" "matches_rel ic r (rev p @ [], q, Map.empty) (pre', rest', g)"
       "m = \<lparr>m_start = length ([]::string) + length p, m_end = length pre', m_groups = g\<rparr>"
    by blast
  then have "s = p @ q \<and> matches_rel ic r (rev p, q, Map.empty) (pre', rest', g)
        \<and> m_start m = length p \<and> m_groups m = g"
    by simp
  then show ?thesis by blast
qed

lemma search_pattern1:
  assumes "re_search ic pattern1 s = Some m"
  shows "\<exists>n d t. m_groups m 1 = Some n \<and> m_groups m 2 = Some d \<and> m_groups m 3 = Some t
           \<and> date_shape d \<and> time_shape t"
  using re_search_sound[OF assms] pattern1_rel by blast

lemma group_date_rel:
  assumes "matches_rel ic (Group i date_token) (pre, rest, g) s'"
  shows "\<exists>d pre' rest'. s' = (pre', rest', g(i \<mapsto> d)) \<and> date_shape d"
  using assms by (auto dest!: date_token_rel)

lemma group_time_rel:
  assumes "matches_rel ic (Group i time_token) (pre, rest, g) s'"
  shows "\<exists>t pre' rest'. s' = (pre', rest', g(i \<mapsto> t)) \<and> time_shape t"
  using assms by (auto dest!: time_token_rel)

lemma cancel_pattern_rel:
  assumes "pattern \<in> set cancel_patterns"
    and "matches_rel ic pattern (pre, rest, Map.empty) (pre', rest', g')"
  shows "\<exists>d t. g' 1 = Some d \<and> g' 2 = Some t \<and> date_shape d \<and> time_shape t"
proof -
  from assms(1) consider
      (a) "pattern = seqs [Group 1 date_token, spaces1, Group 2 time_token]"
    | (b) "pattern = seqs [Group 1 date_token, spaces1, lits ''at'', spaces1, Group 2 time_token]"
    by (auto simp: cancel_patterns_def)
  then show ?thesis
  proof cases
    case a
    from assms(2) obtain s1 s2 where
      st: "matches_rel ic (Group 1 date_token) (pre, rest, Map.empty) s1"
          "matches_rel ic spaces1 s1 s2"
          "matches_rel ic (Group 2 time_token) s2 (pre', rest', g')"
      unfolding a seqs_def by (simp del: matches_rel.simps(6) split_paired_Ex) blast
    from group_date_rel[OF st(1)] obtain d p1 r1 where s1: "s1 = (p1, r1, [1 \<mapsto> d])" "date_shape d"
      by blast
    from spaces1_rel[OF st(2)[unfolded s1]] obtain p2 r2 where s2: "s2 = (p2, r2, [1 \<mapsto> d])" by blast
    from group_time_rel[OF st(3)[unfolded s2]] obtain t where "g' = [1 \<mapsto> d, 2 \<mapsto> t]" "time_shape t"
      by auto
    with s1(2) show ?thesis by simp
  next
    case b
    from assms(2) obtain s1 s2 s3 s4 where
      st: "matches_rel ic (Group 1 date_token) (pre, rest, Map.empty) s1"
          "matches_rel ic spaces1 s1 s2"
          "matches_rel ic (lits ''at'') s2 s3"
          "matches_rel ic spaces1 s3 s4"
          "matches_rel ic (Group 2 time_token) s4 (pre', rest', g')"
      unfolding b seqs_def by (simp del: matches_rel.simps(6) split_paired_Ex) blast
    from group_date_rel[OF st(1)] obtain d p1 r1 where s1: "s1 = (p1, r1, [1 \<mapsto> d])" "date_shape d"
      by blast
    from spaces1_rel[OF st(2)[unfolded s1]] obtain p2 r2 where s2: "s2 = (p2, r2, [1 \<mapsto> d])" by blast
    from lits_rel[OF st(3)[unfolded s2]] obtain p3 r3 where s3: "s3 = (p3, r3, [1 \<mapsto> d])" by blast
    from spaces1_rel[OF st(4)[unfolded s3]] obtain p4 r4 where s4: "s4 = (p4, r4, [1 \<mapsto> d])" by blast
    from group_time_rel[OF st(5)[unfolded s4]] obtain t where "g' = [1 \<mapsto> d, 2 \<mapsto> t]" "time_shape t"
      by auto
    with s1(2) show ?thesis by simp
  qed
qed

lemma search_cancel_pattern:
  assumes "pattern \<in> set cancel_patterns" "re_search ic pattern s = Some m"
  shows "\<exists>d t. m_groups m 1 = Some d \<and> m_groups m 2 = Some t \<and> date_shape d \<and> time_shape t"
  using re_search_sound[OF assms(2)] cancel_pattern_rel[OF assms(1)] by blast

lemma search_date_pattern:
  assumes "re_search ic date_pattern s = Some m"
  shows "\<exists>d. m_groups m 1 = Some d \<and> date_shape d"
proof -
  from re_search_sound[OF assms] obtain p q pre' rest' g where
    "matches_rel ic (Group 1 date_token) (rev p, q, Map.empty) (pre', rest', g)" "m_groups m = g"
    unfolding date_pattern_def by blast
  with group_date_rel[OF this(1)] show ?thesis by auto
qed

lemma search_time_pattern:
  assumes "re_search ic time_pattern s = Some m"
  shows "\<exists>t. m_groups m 1 = Some t \<and> time_shape t"
proof -
  from re_search_sound[OF assms] obtain p q pre' rest' g where
    "matches_rel ic (Group 1 time_token) (rev p, q, Map.empty) (pre', rest', g)" "m_groups m = g"
    unfolding time_pattern_def by blast
  with group_time_rel[OF this(1)] show ?thesis by auto
qed

lemma digit_not_colon: "is_digit c \<Longrightarrow> c \<noteq> CHR '':''"
  by (auto simp: is_digit_def)

lemma split_on_none: "sep \<notin> set s \<Longrightarrow> split_on sep s = [s]"
  by (induction s) auto

lemma split_on_first: "sep \<notin> set h \<Longrightarrow> split_on sep (h @ sep # m) = h # split_on sep m"
  by (induction h) auto

lemma pad_hour_time_shape:
  assumes "time_shape t"
  shows "\<exists>t'. pad_hour t = Inr t' \<and> is_padded_time t'"
proof -
  from assms obtain h m where
    hm: "t = h @ '':'' @ m" "length h = 1 \<or> length h = 2" "length m = 2"
        "list_all is_digit h" "list_all is_digit m"
    by (auto simp: time_shape_def)
  have "CHR '':'' \<notin> set h" "CHR '':'' \<notin> set m"
    using hm(4,5) digit_not_colon by (auto simp: list_all_iff)
  then have sp: "split_on CHR '':'' t = [h, m]"
    using hm(1) by (simp add: split_on_first split_on_none)
  from hm(2) show ?thesis
  proof
    assume h1: "length h = 1"
    then obtain a where a: "h = [a]" by (cases h) auto
    have "pad_hour t = Inr (CHR ''0'' # a # '':'' @ m)"
      using sp a by (simp add: pad_hour_def zfill2_def)
    moreover have "is_padded_time (CHR ''0'' # a # '':'' @ m)"
      using hm(3,4,5) a by (simp add: is_padded_time_def is_digit_def)
    ultimately show ?thesis by blast
  next
    assume h2: "length h = 2"
    then have "pad_hour t = Inr t" using sp by (simp add: pad_hour_def)
    moreover have "is_padded_time t"
      using hm h2 by (auto simp: is_padded_time_def nth_append)
    ultimately show ?thesis by blast
  qed
qed

lemma group_Some: "m_groups m i = Some x \<Longrightarrow> group m i = Inr x"
  by (simp add: group_def)

lemma bind_err_Inr [simp]: "bind_err (Inr v) f = f v"
  by (simp add: bind_err_def)

lemma cancel_try_shape:
  assumes "set patterns \<subseteq> set cancel_patterns"
  shows "cancel_try patterns s = Inr (None, None)
         \<or> (\<exists>d t. cancel_try patterns s = Inr (Some d, Some t) \<and> is_date_token d \<and> is_padded_time t)"
  using assms
proof (induction patterns)
  case Nil
  show ?case by simp
next
  case (Cons pattern patterns)
  show ?case
  proof (cases "re_search False pattern s")
    case None
    then show ?thesis using Cons by simp
  next
    case (Some m)
    have "pattern \<in> set cancel_patterns" using Cons.prems by simp
    from search_cancel_pattern[OF this Some] obtain d t where
      g: "m_groups m 1 = Some d" "m_groups m 2 = Some t" "date_shape d" "time_shape t"
      by blast
    from pad_hour_time_shape[OF g(4)] obtain t' where t': "pad_hour t = Inr t'" "is_padded_time t'"
      by blast
    have "cancel_try (pattern # patterns) s = Inr (Some d, Some t')"
      using Some g(1,2) t'(1) by (simp add: group_Some)
    with date_shape_token[OF g(3)] t'(2) show ?thesis by blast
  qed
qed

lemma parse_cancel_shape:
  "parse_cancel_message message = Inr (None, None)
   \<or> (\<exists>d t. parse_cancel_message message = Inr (Some d, Some t) \<and> is_date_token d \<and> is_padded_time t)"
  unfolding parse_cancel_message_def by (rule cancel_try_shape) simp

lemma extract_booking_shape:
  "extract_booking_details message = Inr (None, None, None)
   \<or> (\<exists>n d t. extract_booking_details message = Inr (Some n, Some d, Some t)
         \<and> is_date_token d \<and> is_padded_time t)"
proof (cases "re_search True pattern1 (strip message)")
  case (Some m)
  from search_pattern1[OF Some] obtain n d t where
    g: "m_groups m 1 = Some n" "m_groups m 2 = Some d" "m_groups m 3 = Some t"
       "date_shape d" "time_shape t"
    by blast
  from pad_hour_time_shape[OF g(5)] obtain t' where t': "pad_hour t = Inr t'" "is_padded_time t'"
    by blast
  have "extract_booking_details message = Inr (Some (strip n), Some d, Some t')"
    using Some g(1,2,3) t'(1) by (simp add: extract_booking_details_def group_Some)
  with date_shape_token[OF g(4)] t'(2) show ?thesis by blast
next
  case None
  show ?thesis
  proof (cases "re_search False date_pattern (strip message)")
    case dn: None
    then show ?thesis using None by (simp add: extract_booking_details_def)
  next
    case ds: (Some dm)
    show ?thesis
    proof (cases "re_search False time_pattern (strip message)")
      case tn: None
      then show ?thesis using None ds by (simp add: extract_booking_details_def)
    next
      case ts: (Some tm)
      from search_date_pattern[OF ds] obtain d where d: "m_groups dm 1 = Some d" "date_shape d"
        by blast
      from search_time_pattern[OF ts] obtain t where t: "m_groups tm 1 = Some t" "time_shape t"
        by blast
      from pad_hour_time_shape[OF t(2)] obtain t' where t': "pad_hour t = Inr t'" "is_padded_time t'"
        by blast
      define name where "name = strip (re_sub False spaces_pattern '' ''
          (re_sub True filler_pattern [] (strip (take (m_start dm) (strip message)))))"
      have "extract_booking_details message =
              (if name \<noteq> [] \<and> length name > 1 then Inr (Some name, Some d, Some t')
               else Inr (None, None, None))"
        using None ds ts d(1) t(1) t'(1)
        by (simp add: extract_booking_details_def group_Some name_def Let_def)
      with date_shape_token[OF d(2)] t'(2) show ?thesis by auto
    qed
  qed
qed

text \<open>
  Claim C8. For every input text both parsers return a value and never an exception: the
  result is either all fields absent or all fields present, and then the date is a
  \<open>DD-MM-YYYY\<close> token and the time is \<open>HH:MM\<close> with a two-digit hour. Both are
  functions of the text alone, and both are total (every recursion is on the text or on the
  pattern).
\<close>

theorem parser_total:
  "(extract_booking_details message = Inr (None, None, None)
      \<or> (\<exists>n d t. extract_booking_details message = Inr (Some n, Some d, Some t)
            \<and> is_date_token d \<and> is_padded_time t))
   \<and> (parse_cancel_message message = Inr (None, None)
      \<or> (\<exists>d t. parse_cancel_message message = Inr (Some d, Some t)
            \<and> is_date_token d \<and> is_padded_time t))"
  using extract_booking_shape[of message] parse_cancel_shape[of message] by simp

lemma example_extract:
  "extract_booking_details ''Book Al 20-08-2025 9:30''
     = Inr (Some ''Al'', Some ''20-08-2025'', Some ''09:30'')"
  by code_simp

lemma example_cancel_unparsed: "parse_cancel_message ''Cancel tomorrow'' = Inr (None, None)"
  by code_simp

theorem parser_total_witness:
  "extract_booking_details ''Book Al 20-08-2025 9:30''
     = Inr (Some ''Al'', Some ''20-08-2025'', Some ''09:30'')
   \<and> is_date_token ''20-08-2025'' \<and> is_padded_time ''09:30''
   \<and> parse_cancel_message ''Cancel tomorrow'' = Inr (None, None)"
  using parser_total[of "''Book Al 20-08-2025 9:30''"] parser_total[of "''Cancel tomorrow''"]
  by (simp add: example_extract example_cancel_unparsed)

section \<open>The repository under requests\<close>

lemma first_index_Some:
  "first_index P xs = Some i \<Longrightarrow> i < length xs \<and> P (xs ! i) \<and> (\<forall>j<i. \<not> P (xs ! j))"
proof (induction xs arbitrary: i)
  case Nil
  then show ?case by simp
next
  case (Cons x xs)
  show ?case
  proof (cases "P x")
    case True
    with Cons.prems show ?thesis by simp
  next
    case False
    with Cons.prems obtain j where j: "first_index P xs = Some j" "i = Suc j"
      by auto
    from Cons.IH[OF j(1)] False j(2) show ?thesis
      by (auto simp: less_Suc_eq_0_disj)
  qed
qed

lemma first_index_None: "first_index P xs = None \<longleftrightarrow> (\<forall>x\<in>set xs. \<not> P x)"
  by (induction xs) auto

lemma booking_effect:
  "snd (handle_appointment_booking now utcnow message phone db) = db \<or>
   (\<exists>a. snd (handle_appointment_booking now utcnow message phone db) = db @ [a]
        \<and> apt_status a = Confirmed \<and> is_slot_available db (apt_date a) (apt_time a) None)"
  by (auto simp: handle_appointment_booking_def split: sum.splits prod.splits bool.splits)

lemma view_effect: "snd (handle_view_appointments phone db) = db"
  by (simp add: handle_view_appointments_def Let_def)

lemma cancel_effect:
  "snd (handle_cancel_appointment message phone db) = db \<or>
   (\<exists>i<length db. apt_status (db ! i) = Confirmed
        \<and> snd (handle_cancel_appointment message phone db) = cancel_row db i)"
  by (auto simp: handle_cancel_appointment_def cancel_row_def
      split: sum.splits prod.splits option.splits dest: first_index_Some)

lemma available_iff:
  "is_slot_available db d t None \<longleftrightarrow>
     (d, t) \<notin> set (map (\<lambda>a. (apt_date a, apt_time a)) (filter (\<lambda>a. apt_status a = Confirmed) db))"
  by (auto simp: is_slot_available_def filter_empty_conv)

lemma slot_exclusive_append:
  "slot_exclusive db \<Longrightarrow> apt_status a = Confirmed \<Longrightarrow> is_slot_available db (apt_date a) (apt_time a) None
     \<Longrightarrow> slot_exclusive (db @ [a])"
  by (simp add: slot_exclusive_def available_iff)

lemma filter_cancel_row:
  assumes "i < length db" "apt_status (db ! i) = Confirmed"
  shows "filter (\<lambda>a. apt_status a = Confirmed) (cancel_row db i) =
         filter (\<lambda>a. apt_status a = Confirmed) (take i db) @ filter (\<lambda>a. apt_status a = Confirmed) (drop (Suc i) db)"
proof -
  have "cancel_row db i = take i db @ [(db ! i)\<lparr>apt_status := Cancelled\<rparr>] @ drop (Suc i) db"
    using assms(1) by (simp add: cancel_row_def upd_conv_take_nth_drop)
  then show ?thesis by simp
qed

lemma filter_split_row:
  assumes "i < length db" "apt_status (db ! i) = Confirmed"
  shows "filter (\<lambda>a. apt_status a = Confirmed) db =
         filter (\<lambda>a. apt_status a = Confirmed) (take i db) @ [db ! i] @ filter (\<lambda>a. apt_status a = Confirmed) (drop (Suc i) db)"
proof -
  have "db = take i db @ [db ! i] @ drop (Suc i) db"
    using assms(1) by (simp add: id_take_nth_drop[symmetric])
  then have "filter (\<lambda>a. apt_status a = Confirmed) db = filter (\<lambda>a. apt_status a = Confirmed) (take i db @ [db ! i] @ drop (Suc i) db)"
    by simp
  then show ?thesis using assms(2) by simp
qed

lemma slot_exclusive_cancel_row:
  assumes "slot_exclusive db" "i < length db" "apt_status (db ! i) = Confirmed"
  shows "slot_exclusive (cancel_row db i)"
  using assms(1) unfolding slot_exclusive_def filter_cancel_row[OF assms(2,3)] filter_split_row[OF assms(2,3)]
  by auto

lemma cancel_row_frees_slot:
  assumes "slot_exclusive db" "i < length db" "apt_status (db ! i) = Confirmed"
  shows "is_slot_available (cancel_row db i) (apt_date (db ! i)) (apt_time (db ! i)) None"
  using assms(1) unfolding available_iff slot_exclusive_def filter_cancel_row[OF assms(2,3)] filter_split_row[OF assms(2,3)]
  by auto

lemma handle_preserves_exclusive: "slot_exclusive db \<Longrightarrow> slot_exclusive (snd (handle rq db))"
proof (cases rq)
  case (Book now utcnow message phone)
  assume "slot_exclusive db"
  then show ?thesis
    using booking_effect[of now utcnow message phone db] Book
    by (auto intro: slot_exclusive_append)
next
  case (Cancel message phone)
  assume "slot_exclusive db"
  then show ?thesis
    using cancel_effect[of message phone db] Cancel
    by (auto intro: slot_exclusive_cancel_row)
next
  case (ListAppointments phone)
  assume "slot_exclusive db"
  then show ?thesis using ListAppointments by (simp add: view_effect)
qed

lemma run_preserves_exclusive: "slot_exclusive db \<Longrightarrow> slot_exclusive (run rqs db)"
  by (induction rqs arbitrary: db) (auto intro: handle_preserves_exclusive)

lemma evolves_refl: "evolves db db"
  by (simp add: evolves_def list_all2_same same_details_def status_step_def)

lemma evolves_iff:
  "evolves db db' \<longleftrightarrow>
     length db \<le> length db' \<and> (\<forall>i<length db. same_details (db ! i) (db' ! i) \<and> status_step (db ! i) (db' ! i))"
  by (auto simp: evolves_def list_all2_conv_all_nth)

lemma same_details_trans: "same_details a b \<Longrightarrow> same_details b c \<Longrightarrow> same_details a c"
  by (simp add: same_details_def)

lemma status_step_trans: "status_step a b \<Longrightarrow> status_step b c \<Longrightarrow> status_step a c"
  by (auto simp: status_step_def)

lemma evolves_trans:
  assumes "evolves a b" "evolves b c"
  shows "evolves a c"
proof -
  have len: "length a \<le> length b" "length b \<le> length c"
    using assms by (simp_all add: evolves_iff)
  have "same_details (a ! i) (c ! i) \<and> status_step (a ! i) (c ! i)" if "i < length a" for i
  proof -
    have "i < length b" using that len by simp
    then show ?thesis
      using assms that by (auto simp: evolves_iff intro: same_details_trans status_step_trans)
  qed
  then show ?thesis using len by (simp add: evolves_iff)
qed

lemma evolves_append: "evolves db (db @ [a])"
  by (simp add: evolves_iff nth_append same_details_def status_step_def)

lemma evolves_cancel_row:
  "i < length db \<Longrightarrow> apt_status (db ! i) = Confirmed \<Longrightarrow> evolves db (cancel_row db i)"
  by (simp add: evolves_iff cancel_row_def nth_list_update same_details_def status_step_def)

lemma handle_evolves: "evolves db (snd (handle rq db))"
proof (cases rq)
  case (Book now utcnow message phone)
  then show ?thesis
    using booking_effect[of now utcnow message phone db]
    by (auto simp: evolves_refl evolves_append)
next
  case (Cancel message phone)
  then show ?thesis
    using cancel_effect[of message phone db]
    by (auto simp: evolves_refl evolves_cancel_row)
next
  case (ListAppointments phone)
  then show ?thesis by (simp add: view_effect evolves_refl)
qed

lemma run_evolves: "evolves db (run rqs db)"
proof (induction rqs arbitrary: db)
  case Nil
  show ?case by (simp add: evolves_refl)
next
  case (Cons rq rqs)
  show ?case
    using evolves_trans[OF handle_evolves[of db rq] Cons.IH[of "snd (handle rq db)"]] by simp
qed

lemma distinct_map_count:
  "distinct (map f xs) \<longleftrightarrow> (\<forall>k. length (filter (\<lambda>x. f x = k) xs) \<le> 1)"
proof (induction xs)
  case Nil
  show ?case by simp
next
  case (Cons x xs)
  have "f x \<notin> f ` set xs \<longleftrightarrow> (\<forall>y\<in>set xs. f y \<noteq> f x)"
    by (metis imageE imageI)
  then have "f x \<notin> f ` set xs \<longleftrightarrow> filter (\<lambda>y. f y = f x) xs = []"
    by (simp add: filter_empty_conv)
  then show ?case using Cons.IH by (auto simp: le_Suc_eq)
qed

lemma slot_exclusive_count:
  "slot_exclusive db \<longleftrightarrow>
     (\<forall>d t. length (filter (\<lambda>a. apt_date a = d \<and> apt_time a = t \<and> apt_status a = Confirmed) db) \<le> 1)"
proof -
  have "filter (\<lambda>a. (apt_date a, apt_time a) = (d, t)) (filter (\<lambda>a. apt_status a = Confirmed) db)
        = filter (\<lambda>a. apt_date a = d \<and> apt_time a = t \<and> apt_status a = Confirmed) db" for d t
    by (induction db) auto
  then show ?thesis
    unfolding slot_exclusive_def distinct_map_count by (simp add: split_paired_All del: prod.inject)
qed

lemma cancel_keeps_confirmed:
  assumes "a \<in> set (snd (handle_cancel_appointment message phone db))" "apt_status a = Confirmed"
  shows "a \<in> set db"
proof -
  from cancel_effect[of message phone db] assms(1)
  have "a \<in> set db \<or> (\<exists>i<length db. a \<in> set (cancel_row db i))" by auto
  then show ?thesis
  proof
    assume "a \<in> set db" then show ?thesis .
  next
    assume "\<exists>i<length db. a \<in> set (cancel_row db i)"
    then obtain i where "i < length db" "a \<in> set (db[i := (db ! i)\<lparr>apt_status := Cancelled\<rparr>])"
      by (auto simp: cancel_row_def)
    then have "a = (db ! i)\<lparr>apt_status := Cancelled\<rparr> \<or> a \<in> set db"
      using set_update_subset_insert[of db i "(db ! i)\<lparr>apt_status := Cancelled\<rparr>"] by auto
    with assms(2) show ?thesis by auto
  qed
qed

text \<open>
  Claim C2. In every table reached from the empty one by serving requests one after the
  other, no date and time has more than one confirmed appointment. A booking request
  leaves the table as it is or appends one confirmed row whose slot the availability check
  found free, and a cancel request never yields a confirmed row that was not there before.
\<close>

theorem slot_exclusivity:
  "(\<forall>d t. length (filter (\<lambda>a. apt_date a = d \<and> apt_time a = t \<and> apt_status a = Confirmed)
                      (run rqs [])) \<le> 1)
   \<and> (\<forall>now utcnow message phone db.
         snd (handle (Book now utcnow message phone) db) = db
         \<or> (\<exists>a. snd (handle (Book now utcnow message phone) db) = db @ [a]
                \<and> apt_status a = Confirmed \<and> is_slot_available db (apt_date a) (apt_time a) None))
   \<and> (\<forall>message phone db a.
         a \<in> set (snd (handle (Cancel message phone) db)) \<and> apt_status a = Confirmed \<longrightarrow> a \<in> set db)"
proof (intro conjI)
  have "slot_exclusive []" by (simp add: slot_exclusive_def)
  then have "slot_exclusive (run rqs [])" by (rule run_preserves_exclusive)
  then show "\<forall>d t. length (filter (\<lambda>a. apt_date a = d \<and> apt_time a = t \<and> apt_status a = Confirmed)
                      (run rqs [])) \<le> 1"
    by (simp add: slot_exclusive_count)
next
  show "\<forall>now utcnow message phone db.
         snd (handle (Book now utcnow message phone) db) = db
         \<or> (\<exists>a. snd (handle (Book now utcnow message phone) db) = db @ [a]
                \<and> apt_status a = Confirmed \<and> is_slot_available db (apt_date a) (apt_time a) None)"
    using booking_effect by simp
next
  show "\<forall>message phone db a.
         a \<in> set (snd (handle (Cancel message phone) db)) \<and> apt_status a = Confirmed \<longrightarrow> a \<in> set db"
    using cancel_keeps_confirmed by auto
qed

lemma example_run:
  "map (\<lambda>a. (apt_id a, apt_name a, apt_phone_number a, apt_date a, apt_time a, apt_status a))
       (run example_requests []) =
     [(1, ''Jane Roe'', ''+100'', ''20-08-2025'', ''12:00'', Cancelled),
      (2, ''John Doe'', ''+200'', ''20-08-2025'', ''12:00'', Confirmed)]"
  by code_simp

theorem slot_exclusivity_witness:
  "length (filter (\<lambda>a. apt_date a = ''20-08-2025'' \<and> apt_time a = ''12:00'' \<and> apt_status a = Confirmed)
             (run example_requests [])) \<le> 1
   \<and> length (run example_requests []) = 2"
proof -
  have "length (map (\<lambda>a. (apt_id a, apt_name a, apt_phone_number a, apt_date a, apt_time a, apt_status a))
       (run example_requests [])) = 2"
    unfolding example_run by simp
  then have "length (run example_requests []) = 2" by simp
  then show ?thesis using slot_exclusivity[of example_requests] by blast
qed

lemma cancel_outcome:
  "(snd (handle_cancel_appointment message phone db) = db
      \<and> (\<forall>n d t. fst (handle_cancel_appointment message phone db) \<noteq> Inr (CancelSuccess n d t)))
   \<or> (\<exists>i<length db. apt_status (db ! i) = Confirmed
        \<and> fst (handle_cancel_appointment message phone db)
            = Inr (CancelSuccess (apt_name (db ! i)) (apt_date (db ! i)) (apt_time (db ! i)))
        \<and> snd (handle_cancel_appointment message phone db) = cancel_row db i)"
proof (cases "parse_cancel_message message")
  case (Inl e)
  then show ?thesis by (simp add: handle_cancel_appointment_def)
next
  case (Inr p)
  obtain d t where p: "p = (d, t)" by (cases p)
  show ?thesis
  proof (cases "truthy d \<and> truthy t")
    case False
    then show ?thesis using Inr p by (auto simp: handle_cancel_appointment_def)
  next
    case True
    let ?P = "\<lambda>a. apt_phone_number a = phone \<and> apt_date a = the d \<and> apt_time a = the t
                  \<and> apt_status a = Confirmed"
    show ?thesis
    proof (cases "first_index ?P db")
      case None
      then show ?thesis using Inr p True by (simp add: handle_cancel_appointment_def)
    next
      case (Some i)
      from first_index_Some[OF Some] have i: "i < length db" "?P (db ! i)" by simp_all
      have "handle_cancel_appointment message phone db
              = (Inr (CancelSuccess (apt_name (db ! i)) (the d) (the t)), cancel_row db i)"
        using Inr p True Some by (simp add: handle_cancel_appointment_def cancel_row_def)
      with i show ?thesis by auto
    qed
  qed
qed

lemma booking_keeps_rows:
  "take (length db) (snd (handle_appointment_booking now utcnow message phone db)) = db"
  using booking_effect[of now utcnow message phone db] by auto

text \<open>
  Claim C7. Serving requests never removes a row and never changes the id, name, phone
  number, date, time or creation time of a row; the status of a row stays as it is or goes
  from confirmed to cancelled. Booking and listing leave every existing row untouched; a
  cancel request that does not answer with success leaves the table unchanged, and one
  that does changes the status of exactly one confirmed row to cancelled and nothing else.
\<close>

theorem frame_of_requests:
  "evolves db (run rqs db)
   \<and> (\<forall>now utcnow message phone.
         take (length db) (snd (handle (Book now utcnow message phone) db)) = db)
   \<and> (\<forall>phone. snd (handle (ListAppointments phone) db) = db)
   \<and> (\<forall>message phone.
         (snd (handle (Cancel message phone) db) = db
            \<and> (\<forall>n d t. fst (handle (Cancel message phone) db) \<noteq> Inr (CancelSuccess n d t)))
         \<or> (\<exists>i<length db. apt_status (db ! i) = Confirmed
              \<and> fst (handle (Cancel message phone) db)
                  = Inr (CancelSuccess (apt_name (db ! i)) (apt_date (db ! i)) (apt_time (db ! i)))
              \<and> snd (handle (Cancel message phone) db) = cancel_row db i))"
  using run_evolves[of db rqs] booking_keeps_rows[of db] view_effect[of _ db] cancel_outcome[of _ _ db]
  by simp

lemma example_cancel:
  "handle_cancel_appointment ''Cancel 20-08-2025 12:00'' ''+100'' example_db
     = (Inr (CancelSuccess ''Jane Roe'' ''20-08-2025'' ''12:00''), cancel_row example_db 0)"
  by code_simp

theorem frame_of_requests_witness:
  "evolves example_db (run [Cancel ''Cancel 20-08-2025 12:00'' ''+100''] example_db)
   \<and> run [Cancel ''Cancel 20-08-2025 12:00'' ''+100''] example_db = cancel_row example_db 0
   \<and> map apt_status (cancel_row example_db 0) = [Cancelled, Confirmed]"
proof -
  have "run [Cancel ''Cancel 20-08-2025 12:00'' ''+100''] example_db = cancel_row example_db 0"
    by (simp add: example_cancel)
  moreover have "map apt_status (cancel_row example_db 0) = [Cancelled, Confirmed]"
    by (simp add: cancel_row_def example_db_def)
  ultimately show ?thesis
    using frame_of_requests[of example_db "[Cancel ''Cancel 20-08-2025 12:00'' ''+100'']"] by simp
qed
section \<open>Cancelling an appointment\<close>

lemma parse_cancel_nonempty:
  assumes "parse_cancel_message message = Inr (Some d, Some t)"
  shows "d \<noteq> [] \<and> t \<noteq> []"
  using parse_cancel_shape[of message] assms
  by (auto simp: is_date_token_def is_padded_time_def)

lemma distinct_map_filter_index:
  assumes "distinct (map f (filter P xs))" "i < length xs" "j < length xs"
    "P (xs ! i)" "P (xs ! j)" "f (xs ! i) = f (xs ! j)"
  shows "i = j"
  using assms
proof (induction xs arbitrary: i j)
  case Nil
  then show ?case by simp
next
  case (Cons x xs)
  show ?case
  proof (cases i)
    case i0: 0
    show ?thesis
    proof (cases j)
      case 0
      with i0 show ?thesis by simp
    next
      case (Suc j')
      with Cons.prems i0 have "P x" "f x = f (xs ! j')" "xs ! j' \<in> set (filter P xs)" by auto
      then have "f x \<in> f ` set (filter P xs)" by (metis imageI)
      with Cons.prems(1) \<open>P x\<close> show ?thesis by simp
    qed
  next
    case si: (Suc i')
    show ?thesis
    proof (cases j)
      case 0
      with Cons.prems si have "P x" "f x = f (xs ! i')" "xs ! i' \<in> set (filter P xs)" by auto
      then have "f x \<in> f ` set (filter P xs)" by (metis imageI)
      with Cons.prems(1) \<open>P x\<close> show ?thesis by simp
    next
      case (Suc j')
      have "distinct (map f (filter P xs))" using Cons.prems(1) by (auto split: if_splits)
      from Cons.IH[OF this, of i' j'] Cons.prems si Suc show ?thesis by simp
    qed
  qed
qed

lemma slot_exclusive_unique:
  assumes "slot_exclusive db" "i < length db" "j < length db"
    "apt_status (db ! i) = Confirmed" "apt_status (db ! j) = Confirmed"
    "apt_date (db ! i) = apt_date (db ! j)" "apt_time (db ! i) = apt_time (db ! j)"
  shows "i = j"
  using distinct_map_filter_index[of "\<lambda>a. (apt_date a, apt_time a)" "\<lambda>a. apt_status a = Confirmed" db i j]
    assms
  by (simp add: slot_exclusive_def)

text \<open>
  Claim C4, as amended. In a table where no slot has two confirmed appointments (as in
  every table reached by serving requests one after the other), a cancel request that
  parses to a date and a time does the following. If a confirmed appointment of the
  contact at that date and time exists, it is the only confirmed appointment of the slot,
  exactly its status becomes cancelled, the reply carries its details, and the slot is
  available afterwards. If none exists, the reply is "not found" and the table is
  unchanged.
\<close>

theorem cancel_frees_slot:
  assumes "parse_cancel_message message = Inr (Some d, Some t)" and "slot_exclusive db"
  shows "((\<exists>a\<in>set db. apt_phone_number a = phone \<and> apt_date a = d \<and> apt_time a = t
                      \<and> apt_status a = Confirmed) \<longrightarrow>
            (\<exists>i<length db.
                apt_phone_number (db ! i) = phone \<and> apt_date (db ! i) = d \<and> apt_time (db ! i) = t
                \<and> apt_status (db ! i) = Confirmed
                \<and> (\<forall>j<length db. apt_date (db ! j) = d \<and> apt_time (db ! j) = t
                       \<and> apt_status (db ! j) = Confirmed \<longrightarrow> j = i)
                \<and> handle_cancel_appointment message phone db
                    = (Inr (CancelSuccess (apt_name (db ! i)) d t), cancel_row db i)
                \<and> is_slot_available (cancel_row db i) d t None))
         \<and> ((\<forall>a\<in>set db. \<not> (apt_phone_number a = phone \<and> apt_date a = d \<and> apt_time a = t
                       \<and> apt_status a = Confirmed)) \<longrightarrow>
            handle_cancel_appointment message phone db = (Inr (CancelNotFound d t), db))"
proof -
  let ?P = "\<lambda>a. apt_phone_number a = phone \<and> apt_date a = d \<and> apt_time a = t \<and> apt_status a = Confirmed"
  from parse_cancel_nonempty[OF assms(1)] have tr: "truthy (Some d)" "truthy (Some t)"
    by (simp_all add: truthy_def)
  show ?thesis
  proof (cases "first_index ?P db")
    case None
    then have "\<forall>a\<in>set db. \<not> ?P a" by (simp add: first_index_None)
    moreover have "handle_cancel_appointment message phone db = (Inr (CancelNotFound d t), db)"
      using assms(1) tr None by (simp add: handle_cancel_appointment_def)
    ultimately show ?thesis by blast
  next
    case (Some i)
    from first_index_Some[OF Some] have i: "i < length db" "?P (db ! i)" by simp_all
    have h: "handle_cancel_appointment message phone db
              = (Inr (CancelSuccess (apt_name (db ! i)) d t), cancel_row db i)"
      using assms(1) tr Some by (simp add: handle_cancel_appointment_def cancel_row_def)
    have u: "\<forall>j<length db. apt_date (db ! j) = d \<and> apt_time (db ! j) = t
                       \<and> apt_status (db ! j) = Confirmed \<longrightarrow> j = i"
      using slot_exclusive_unique[OF assms(2) _ i(1)] i(2) by auto
    have f: "is_slot_available (cancel_row db i) d t None"
      using cancel_row_frees_slot[OF assms(2) i(1)] i(2) by simp
    have ex: "\<exists>a\<in>set db. ?P a" using i by (metis nth_mem)
    from i h u f ex show ?thesis by blast
  qed
qed

text \<open>
  The claim as stated, for every table, fails on a table that holds two confirmed
  appointments of two contacts in one slot: the cancellation succeeds and the slot is
  still taken.
\<close>

theorem cancel_frees_slot_counterexample:
  "handle_cancel_appointment ''Cancel 20-08-2025 12:00'' ''+100'' double_booked_db
     = (Inr (CancelSuccess ''Jane Roe'' ''20-08-2025'' ''12:00''), cancel_row double_booked_db 0)
   \<and> \<not> is_slot_available (cancel_row double_booked_db 0) ''20-08-2025'' ''12:00'' None"
  by code_simp

lemma example_cancel_parsed:
  "parse_cancel_message ''Cancel 20-08-2025 12:00'' = Inr (Some ''20-08-2025'', Some ''12:00'')"
  by code_simp

theorem cancel_frees_slot_witness:
  "parse_cancel_message ''Cancel 20-08-2025 12:00'' = Inr (Some ''20-08-2025'', Some ''12:00'')
   \<and> slot_exclusive example_db
   \<and> handle_cancel_appointment ''Cancel 20-08-2025 12:00'' ''+100'' example_db
       = (Inr (CancelSuccess ''Jane Roe'' ''20-08-2025'' ''12:00''), cancel_row example_db 0)
   \<and> is_slot_available (cancel_row example_db 0) ''20-08-2025'' ''12:00'' None
   \<and> handle_cancel_appointment ''Cancel 20-08-2025 12:00'' ''+300'' example_db
       = (Inr (CancelNotFound ''20-08-2025'' ''12:00''), example_db)"
proof -
  have ex: "slot_exclusive example_db"
    by (simp add: slot_exclusive_def example_db_def)
  have m: "\<exists>a\<in>set example_db. apt_phone_number a = ''+100'' \<and> apt_date a = ''20-08-2025''
              \<and> apt_time a = ''12:00'' \<and> apt_status a = Confirmed"
    by (simp add: example_db_def)
  have n: "\<forall>a\<in>set example_db. \<not> (apt_phone_number a = ''+300'' \<and> apt_date a = ''20-08-2025''
              \<and> apt_time a = ''12:00'' \<and> apt_status a = Confirmed)"
    by (simp add: example_db_def)
  from cancel_frees_slot[OF example_cancel_parsed ex, of "''+100''"] m
  obtain i where i: "i < length example_db" "apt_phone_number (example_db ! i) = ''+100''"
      "handle_cancel_appointment ''Cancel 20-08-2025 12:00'' ''+100'' example_db
         = (Inr (CancelSuccess (apt_name (example_db ! i)) ''20-08-2025'' ''12:00''), cancel_row example_db i)"
      "is_slot_available (cancel_row example_db i) ''20-08-2025'' ''12:00'' None"
    by blast
  from i(1,2) have "i = 0" by (auto simp: example_db_def less_Suc_eq)
  with i(3,4) have a: "handle_cancel_appointment ''Cancel 20-08-2025 12:00'' ''+100'' example_db
       = (Inr (CancelSuccess ''Jane Roe'' ''20-08-2025'' ''12:00''), cancel_row example_db 0)"
    "is_slot_available (cancel_row example_db 0) ''20-08-2025'' ''12:00'' None"
    by (simp_all add: example_db_def)
  from cancel_frees_slot[OF example_cancel_parsed ex, of "''+300''"] n
  have b: "handle_cancel_appointment ''Cancel 20-08-2025 12:00'' ''+300'' example_db
       = (Inr (CancelNotFound ''20-08-2025'' ''12:00''), example_db)"
    by blast
  from example_cancel_parsed ex a b show ?thesis by blast
qed
section \<open>Time slots and the forward search\<close>

lemma digit_char_digit: "is_digit (digit_char k)"
proof -
  have "digit_char k \<in> set ''0123456789''"
    unfolding digit_char_def by (rule nth_mem) simp
  then show ?thesis by (auto simp: is_digit_def)
qed

lemma digit_char_val: "digit_val (digit_char k) = k mod 10"
proof -
  have m: "map digit_val ''0123456789'' = [0..<10]"
    by code_simp
  have "digit_val (''0123456789'' ! (k mod 10)) = map digit_val ''0123456789'' ! (k mod 10)"
    by (rule nth_map[symmetric]) simp
  also have "\<dots> = k mod 10" unfolding m by simp
  finally show ?thesis by (simp add: digit_char_def)
qed

lemma two_digits: "n < 100 \<Longrightarrow> 10 * (n div 10 mod 10) + n mod 10 = (n::nat)"
proof -
  assume "n < 100"
  then have "n div 10 < 10" by (simp add: less_mult_imp_div_less)
  then show ?thesis by simp
qed

lemma four_digits:
  "n < 10000 \<Longrightarrow>
     1000 * (n div 1000 mod 10) + 100 * (n div 100 mod 10) + 10 * (n div 10 mod 10) + n mod 10 = (n::nat)"
proof -
  assume "n < 10000"
  then have a: "n div 1000 mod 10 = n div 1000" by (simp add: less_mult_imp_div_less)
  have b: "n div 100 = 10 * (n div 1000) + n div 100 mod 10"
    using mult_div_mod_eq[of 10 "n div 100"] by (simp add: div_mult2_eq[symmetric])
  have c: "n div 10 = 10 * (n div 100) + n div 10 mod 10"
    using mult_div_mod_eq[of 10 "n div 10"] by (simp add: div_mult2_eq[symmetric])
  have d: "n = 10 * (n div 10) + n mod 10" by simp
  from a b c d show ?thesis by linarith
qed

lemma digit_not_space: "is_digit c \<Longrightarrow> \<not> is_space c"
  by (auto simp: is_digit_def is_space_def Let_def)

lemma digit_not_punct:
  "is_digit c \<Longrightarrow> c \<noteq> CHR ''-'' \<and> c \<noteq> CHR ''+'' \<and> c \<noteq> CHR ''_'' \<and> c \<noteq> CHR '':''"
  by (auto simp: is_digit_def)

lemma strip_digits:
  assumes "list_all is_digit s"
  shows "strip s = s"
proof (cases s rule: rev_cases)
  case Nil
  then show ?thesis by (simp add: strip_def lstrip_def rstrip_def)
next
  case (snoc xs x)
  have l: "lstrip s = s"
    using assms by (cases s) (auto simp: lstrip_def digit_not_space)
  have "\<not> is_space x" using assms snoc by (simp add: digit_not_space)
  then have "rstrip s = s" using snoc by (simp add: rstrip_def)
  with l show ?thesis by (simp add: strip_def)
qed

lemma int_literal_digits: "s \<noteq> [] \<Longrightarrow> list_all is_digit s \<Longrightarrow> int_literal s"
  by (induction s rule: int_literal.induct) (auto simp: digit_not_punct)

lemma py_int_digits:
  assumes "s \<noteq> []" "list_all is_digit s"
  shows "py_int s = Some (int (digits_val s))"
proof -
  have h: "hd s \<noteq> CHR ''-''" "hd s \<noteq> CHR ''+''"
    using assms by (cases s; simp add: digit_not_punct)+
  have f: "filter (\<lambda>c. c \<noteq> CHR ''_'') s = s"
    using assms(2) by (simp add: filter_id_conv list_all_iff digit_not_punct)
  show ?thesis
    using assms h f by (simp add: py_int_def strip_digits int_literal_digits Let_def)
qed

lemma pad2_digits: "list_all is_digit (pad2 n)" "pad2 n \<noteq> []"
  by (simp_all add: pad2_def digit_char_digit)

lemma pad4_digits: "list_all is_digit (pad4 n)" "pad4 n \<noteq> []"
  by (simp_all add: pad4_def digit_char_digit)

lemma py_int_pad2: "n < 100 \<Longrightarrow> py_int (pad2 n) = Some (int n)"
proof -
  assume n: "n < 100"
  have "digits_val (pad2 n) = 10 * (n div 10 mod 10) + n mod 10"
    using n by (simp add: pad2_def digits_val_def digit_char_val)
  also have "\<dots> = n" using n by (rule two_digits)
  finally show ?thesis using py_int_digits[OF pad2_digits(2,1), of n] by simp
qed

lemma py_int_pad4: "n < 10000 \<Longrightarrow> py_int (pad4 n) = Some (int n)"
proof -
  assume n: "n < 10000"
  have "digits_val (pad4 n) = 1000 * (n div 1000 mod 10) + 100 * (n div 100 mod 10) + 10 * (n div 10 mod 10) + n mod 10"
    by (simp add: pad4_def digits_val_def digit_char_val)
  also have "\<dots> = n" using n by (rule four_digits)
  finally show ?thesis using py_int_digits[OF pad4_digits(2,1), of n] by simp
qed

lemma digits_no_sep: "list_all is_digit s \<Longrightarrow> CHR ''-'' \<notin> set s \<and> CHR '':'' \<notin> set s"
  using digit_not_punct by (auto simp: list_all_iff)

lemma split_date_string:
  "split_on CHR ''-'' (date_string (y, m, d)) = [pad2 d, pad2 m, pad4 y]"
  using digits_no_sep[OF pad2_digits(1)] digits_no_sep[OF pad4_digits(1)]
  by (simp add: date_string_def split_on_first split_on_none)

lemma split_time_string:
  "split_on CHR '':'' (time_string h mi) = [pad2 h, pad2 mi]"
  using digits_no_sep[OF pad2_digits(1)]
  by (simp add: time_string_def split_on_first split_on_none)

lemma days_in_month_le: "days_in_month y m \<le> 31"
  by (simp add: days_in_month_def)

lemma parse_canonical:
  assumes "valid_date y m d" "h < 24" "mi < 60"
  shows "parse_date_time (date_string (y, m, d)) (time_string h mi)
           = Some \<lparr>dt_year = y, dt_month = m, dt_day = d, dt_hour = h, dt_minute = mi,
                    dt_second = 0, dt_microsecond = 0\<rparr>"
proof -
  have b: "d < 100" "m < 100" "y < 10000" "h < 100" "mi < 100"
    using assms days_in_month_le[of y m] by (auto simp: valid_date_def)
  show ?thesis
    using assms
    by (simp add: parse_date_time_def split_date_string split_time_string py_int_pad2 py_int_pad4 b
        mk_datetime_def)
qed

lemma add_day_canonical:
  assumes "valid_date y m d" "(y, m, d) \<noteq> (9999, 12, 31)"
    "next_calendar_day (y, m, d) = (y', m', d')"
  shows "add_day \<lparr>dt_year = y, dt_month = m, dt_day = d, dt_hour = h, dt_minute = mi,
                   dt_second = 0, dt_microsecond = 0\<rparr> =
         Some \<lparr>dt_year = y', dt_month = m', dt_day = d', dt_hour = h,
                dt_minute = mi, dt_second = 0, dt_microsecond = 0\<rparr>"
  using assms
  by (auto simp: add_day_def next_calendar_day_def valid_date_def days_in_month_def split: if_splits)

lemma add_day_last:
  "add_day \<lparr>dt_year = 9999, dt_month = 12, dt_day = 31, dt_hour = h, dt_minute = mi,
             dt_second = 0, dt_microsecond = 0\<rparr> = None"
  by (simp add: add_day_def days_in_month_def)

lemma strftime_canonical:
  "strftime_date \<lparr>dt_year = y, dt_month = m, dt_day = d, dt_hour = h, dt_minute = mi,
                   dt_second = 0, dt_microsecond = 0\<rparr> = date_string (y, m, d)"
  "strftime_time \<lparr>dt_year = y, dt_month = m, dt_day = d, dt_hour = h, dt_minute = mi,
                   dt_second = 0, dt_microsecond = 0\<rparr> = time_string h mi"
  by (simp_all add: strftime_date_def strftime_time_def date_string_def time_string_def)

lemma nine_o_clock: "time_string 9 0 = ''09:00''"
  by (simp add: time_string_def pad2_def digit_char_def)

lemma div_mod_60: "k < 60 \<Longrightarrow> (60 * h + k) div 60 = (h::nat) \<and> (60 * h + k) mod 60 = k"
  by simp

lemma minutes_cases:
  fixes h mi :: nat
  assumes "h < 24" "mi < 60"
  shows "mi < 30 \<Longrightarrow> (60 * h + mi + 30) div 60 = h \<and> (60 * h + mi + 30) mod 60 = mi + 30
            \<and> (60 * h + mi + 30 < 17 * 60 \<longleftrightarrow> h < 17) \<and> 60 * h + mi + 30 < 24 * 60"
    and "\<not> mi < 30 \<Longrightarrow> (60 * h + mi + 30) div 60 = h + 1 \<and> (60 * h + mi + 30) mod 60 = mi - 30
            \<and> (60 * h + mi + 30 < 17 * 60 \<longleftrightarrow> h + 1 < 17)
            \<and> (60 * h + mi + 30 < 24 * 60 \<longleftrightarrow> h + 1 < 24)"
proof -
  show "mi < 30 \<Longrightarrow> (60 * h + mi + 30) div 60 = h \<and> (60 * h + mi + 30) mod 60 = mi + 30
            \<and> (60 * h + mi + 30 < 17 * 60 \<longleftrightarrow> h < 17) \<and> 60 * h + mi + 30 < 24 * 60"
    using div_mod_60[of "mi + 30" h] assms(1) by (auto simp: add.assoc)
next
  assume f: "\<not> mi < 30"
  then have eq: "60 * h + mi + 30 = 60 * (h + 1) + (mi - 30)" by simp
  show "(60 * h + mi + 30) div 60 = h + 1 \<and> (60 * h + mi + 30) mod 60 = mi - 30
            \<and> (60 * h + mi + 30 < 17 * 60 \<longleftrightarrow> h + 1 < 17)
            \<and> (60 * h + mi + 30 < 24 * 60 \<longleftrightarrow> h + 1 < 24)"
    unfolding eq using div_mod_60[of "mi - 30" "h + 1"] assms(2) by auto
qed

lemma next_slot_canonical:
  assumes "valid_date y m d" "h < 24" "mi < 60" "(y, m, d) \<noteq> (9999, 12, 31)"
  shows "next_time_slot_try (date_string (y, m, d)) (time_string h mi) =
     (if 60 * h + mi + 30 < 17 * 60
      then Some (date_string (y, m, d),
                 time_string ((60 * h + mi + 30) div 60) ((60 * h + mi + 30) mod 60))
      else if 60 * h + mi + 30 < 24 * 60
      then Some (date_string (next_calendar_day (y, m, d)), ''09:00'')
      else Some (date_string (next_calendar_day (y, m, d)), time_string 0 (mi - 30)))"
proof -
  obtain y' m' d' where n: "next_calendar_day (y, m, d) = (y', m', d')"
    by (cases "next_calendar_day (y, m, d)")
  note basics = next_time_slot_try_def parse_canonical[OF assms(1-3)] add_30_minutes_def add_hour_def
    add_day_canonical[OF assms(1,4) n] strftime_canonical n nine_o_clock[symmetric]
  show ?thesis
  proof (cases "mi < 30")
    case True
    from minutes_cases(1)[OF assms(2,3) True] True show ?thesis
      by (simp add: basics Let_def)
  next
    case False
    from minutes_cases(2)[OF assms(2,3) False] False assms(2) show ?thesis
      by (simp add: basics Let_def)
  qed
qed

lemma next_slot_last_day:
  assumes "h < 24" "mi < 60"
  shows "next_time_slot_try (date_string (9999, 12, 31)) (time_string h mi) =
     (if 60 * h + mi + 30 < 17 * 60
      then Some (date_string (9999, 12, 31),
                 time_string ((60 * h + mi + 30) div 60) ((60 * h + mi + 30) mod 60))
      else None)"
proof -
  have v: "valid_date 9999 12 31" by (simp add: valid_date_def days_in_month_def)
  note basics = next_time_slot_try_def parse_canonical[OF v assms] add_30_minutes_def add_hour_def
    add_day_last strftime_canonical
  show ?thesis
  proof (cases "mi < 30")
    case True
    from minutes_cases(1)[OF assms True] True show ?thesis
      by (simp add: basics Let_def)
  next
    case False
    from minutes_cases(2)[OF assms False] False assms(1) show ?thesis
      by (simp add: basics Let_def)
  qed
qed





lemma midnight_same_date:
  assumes "valid_date y m d"
  shows "fst (get_next_time_slot (date_string (y, m, d)) ''00:00'') = date_string (y, m, d)"
proof -
  have z: "''00:00'' = time_string 0 0"
    by (simp add: time_string_def pad2_def digit_char_def)
  show ?thesis
  proof (cases "(y, m, d) = (9999, 12, 31)")
    case True
    then have "y = 9999" "m = 12" "d = 31" by simp_all
    then show ?thesis
      unfolding z using next_slot_last_day[of 0 0] by (simp add: get_next_time_slot_def)
  next
    case False
    show ?thesis
      unfolding z using next_slot_canonical[OF assms _ _ False, of 0 0]
      by (simp add: get_next_time_slot_def)
  qed
qed

lemma search_days_same_day:
  assumes "valid_date y m d"
  shows "search_days (Suc n) db (date_string (y, m, d)) =
     (case find (\<lambda>hour. is_slot_available db (date_string (y, m, d)) (check_time hour) None) [9..<17] of
        Some hour \<Rightarrow> (Some (date_string (y, m, d)), Some (check_time hour))
      | None \<Rightarrow> (None, None))"
proof (induction n)
  case 0
  show ?case by (simp split: option.splits)
next
  case (Suc n)
  show ?case
    using Suc midnight_same_date[OF assms]
    by (simp del: search_days.simps add: search_days.simps(2)[of "Suc n"] split: option.splits)
qed

lemma full_day_probes:
  "find (\<lambda>hour. is_slot_available full_day_db ''20-08-2025'' (check_time hour) None) [9..<17] = None"
  by code_simp

lemma full_day_taken: "\<not> is_slot_available full_day_db ''20-08-2025'' ''12:00'' None"
  by code_simp

lemma full_day_next_day: "is_slot_available full_day_db ''21-08-2025'' ''09:00'' None"
  by code_simp

lemma example_valid: "is_valid_date_time example_now ''20-08-2025'' ''12:00'' = Inr True"
  by code_simp

text \<open>
  Claim C1 at a failing input. Since \<open>get_next_time_slot d "00:00"\<close> returns the date
  \<open>d\<close> itself, the search probes the candidate date seven times and never another day:
  with 20-08-2025 fully booked on the hour and the next day free, a validated and
  occupied candidate gets no alternative.
\<close>

theorem forward_search_stuck:
  "is_valid_date_time example_now ''20-08-2025'' ''12:00'' = Inr True
   \<and> \<not> is_slot_available full_day_db ''20-08-2025'' ''12:00'' None
   \<and> is_slot_available full_day_db ''21-08-2025'' ''09:00'' None
   \<and> find_next_available_slot full_day_db ''20-08-2025'' ''12:00'' = (None, None)"
proof -
  have v: "valid_date 2025 8 20" by (simp add: valid_date_def days_in_month_def)
  have s: "date_string (2025, 8, 20) = ''20-08-2025''"
    by (simp add: date_string_def pad2_def pad4_def digit_char_def)
  have "find_next_available_slot full_day_db ''20-08-2025'' ''12:00'' = (None, None)"
    using search_days_same_day[OF v, of 6 full_day_db] full_day_probes
    by (simp add: find_next_available_slot_def s del: search_days.simps)
  then show ?thesis using full_day_taken full_day_next_day example_valid by simp
qed

lemma example_extract_noon:
  "extract_booking_details ''Book Al 20-08-2025 12:00''
     = Inr (Some ''Al'', Some ''20-08-2025'', Some ''12:00'')"
  by code_simp

theorem forward_search_stuck_witness:
  "handle_appointment_booking example_now example_now ''Book Al 20-08-2025 12:00'' ''+200'' full_day_db
     = (Inr (SlotTakenNoAlternative ''Al'' ''20-08-2025'' ''12:00''), full_day_db)"
  using forward_search_stuck
  by (simp add: handle_appointment_booking_def example_extract_noon truthy_def)
section \<open>The cancel parser on the documented formats\<close>













section \<open>Listing the appointments of a contact\<close>

lemma listing_contents:
  "set (get_user_appointments db phone)
     = {a \<in> set db. apt_phone_number a = phone \<and> apt_status a = Confirmed}
   \<and> sorted (map (\<lambda>a. (apt_date a, apt_time a)) (get_user_appointments db phone))"
  by (auto simp: get_user_appointments_def)

text \<open>
  Claim C5 at a failing input. The listing is ordered by the date column as a string, so
  with \<open>DD-MM-YYYY\<close> dates the first of September comes before the twenty-first of
  August of the same year.
\<close>

theorem listing_order:
  "map (\<lambda>a. (apt_date a, apt_time a)) (get_user_appointments listing_db ''+200'')
     = [(''01-09-2025'', ''12:00''), (''21-08-2025'', ''09:00'')]"
  by (simp add: get_user_appointments_def listing_db_def less_eq_prod_def)

theorem listing_order_witness:
  "map (\<lambda>a. (apt_date a, apt_time a)) (get_user_appointments listing_db ''+200'')
     = [(''01-09-2025'', ''12:00''), (''21-08-2025'', ''09:00'')]
   \<and> fst (handle_view_appointments ''+200'' listing_db) = Inr (AppointmentList (rev listing_db))"
proof -
  have "get_user_appointments listing_db ''+200'' = rev listing_db"
    by (simp add: get_user_appointments_def listing_db_def less_eq_prod_def)
  then have "fst (handle_view_appointments ''+200'' listing_db) = Inr (AppointmentList (rev listing_db))"
    by (simp add: handle_view_appointments_def listing_db_def)
  with listing_order show ?thesis by (rule conjI)
qed
section \<open>The strict booking pattern\<close>
















section \<open>The temporal validator\<close>



end
